(* ===== verification/Prelude.thy ===== *)
theory Prelude
  imports Complex_Main "HOL-Library.Multiset" "HOL-Library.List_Lexorder"
begin

text \<open>
  Shared vocabulary of the pylot model: the Python exceptions the operators
  can raise, the result types that carry them, the \<open>erdos.Timestamp\<close> key
  type with its order, the conversion of simulator time to game time, and the
  \<open>collections.deque\<close> and list operations the operators use
  (\<open>popleft\<close>, \<open>append\<close> on a bounded deque, negative indexing).
  Everything here is executable; the lemmas are the generic facts the
  component theories share.
\<close>

named_theorems pyops "evaluation rules of the modelled Python primitives"

section \<open>Exceptions and results\<close>

text \<open>
  The exceptions raised by the modelled code. \<open>AssertionError\<close> comes from
  \<open>assert\<close>, \<open>KeyError\<close> from a dictionary read, \<open>IndexError\<close> from
  \<open>deque.popleft\<close> or an out-of-range list index, \<open>ValueError\<close> from the
  explicit \<open>raise ValueError\<close> branches, \<open>ZeroDivisionError\<close> from \<open>/\<close>.
\<close>

datatype py_error = AssertionError | KeyError | IndexError | ValueError | ZeroDivisionError

type_synonym 'a result = "py_error + 'a"

section \<open>Timestamps\<close>

text \<open>
  \<open>erdos.Timestamp\<close>: a list of integer coordinates, or the distinguished top
  timestamp (\<open>is_top\<close>) that closes a stream. Coordinates are compared
  lexicographically and top is above every coordinate timestamp.
\<close>

datatype timestamp = TS "int list" | Top

fun is_top :: "timestamp \<Rightarrow> bool" where
  "is_top Top = True"
| "is_top (TS _) = False"

instantiation timestamp :: linorder
begin

fun less_eq_timestamp :: "timestamp \<Rightarrow> timestamp \<Rightarrow> bool" where
  "less_eq_timestamp (TS a) (TS b) = (a \<le> b)"
| "less_eq_timestamp _ Top = True"
| "less_eq_timestamp Top (TS _) = False"

fun less_timestamp :: "timestamp \<Rightarrow> timestamp \<Rightarrow> bool" where
  "less_timestamp (TS a) (TS b) = (a < b)"
| "less_timestamp (TS _) Top = True"
| "less_timestamp Top _ = False"

instance
proof
  fix x y z :: timestamp
  show "(x < y) = (x \<le> y \<and> \<not> y \<le> x)"
    by (cases x; cases y) auto
  show "x \<le> x"
    by (cases x) auto
  show "x \<le> y \<Longrightarrow> y \<le> z \<Longrightarrow> x \<le> z"
    by (cases x; cases y; cases z) auto
  show "x \<le> y \<Longrightarrow> y \<le> x \<Longrightarrow> x = y"
    by (cases x; cases y) auto
  show "x \<le> y \<or> y \<le> x"
    by (cases x; cases y) auto
qed

end

lemma timestamp_le_Top [simp]: "t \<le> Top"
  by (cases t) auto

lemma Top_le_iff [simp]: "Top \<le> t \<longleftrightarrow> t = Top"
  by (cases t) auto

lemma TS_single_le [simp]: "TS [a] \<le> TS [b] \<longleftrightarrow> a \<le> b"
  by auto

lemma TS_single_less [simp]: "TS [a] < TS [b] \<longleftrightarrow> a < b"
  by auto

section \<open>Game time\<close>

text \<open>
  The drivers compute \<open>game_time = int(simulator_pc.timestamp * 1000)\<close>:
  seconds (a Python float, modelled exactly as a rational) to milliseconds,
  truncated towards zero by \<open>int()\<close>.
\<close>

definition py_int :: "rat \<Rightarrow> int" where
  "py_int x = (if 0 \<le> x then \<lfloor>x\<rfloor> else \<lceil>x\<rceil>)"

definition game_time :: "rat \<Rightarrow> int" where
  "game_time t = py_int (t * 1000)"

definition sim_timestamp :: "rat \<Rightarrow> timestamp" where
  "sim_timestamp t = TS [game_time t]"

lemma py_int_nonneg [pyops]: "0 \<le> x \<Longrightarrow> py_int x = \<lfloor>x\<rfloor>"
  by (simp add: py_int_def)

lemma py_int_of_int [simp]: "py_int (of_int z) = z"
  by (simp add: py_int_def)

lemma sim_timestamp_not_Top [simp]: "sim_timestamp t \<noteq> Top"
  by (simp add: sim_timestamp_def)

lemma sim_timestamp_not_top [simp]: "\<not> is_top (sim_timestamp t)"
  by (simp add: sim_timestamp_def)

text \<open>Truncation is monotone, so simulator times in capture order give game times in
  the same order; times less than a millisecond apart may give the same one.\<close>

lemma py_int_mono: "x \<le> y \<Longrightarrow> py_int x \<le> py_int y"
proof (cases "0 \<le> x")
  case True
  assume "x \<le> y"
  with True show ?thesis by (simp add: py_int_def floor_mono)
next
  case False
  assume xy: "x \<le> y"
  have cx: "\<lceil>x\<rceil> \<le> 0" using False by simp
  show ?thesis
  proof (cases "0 \<le> y")
    case True
    then have fy: "0 \<le> \<lfloor>y\<rfloor>" by simp
    have "py_int x = \<lceil>x\<rceil>" "py_int y = \<lfloor>y\<rfloor>"
      using \<open>\<not> 0 \<le> x\<close> True by (simp_all add: py_int_def)
    with cx fy show ?thesis by linarith
  next
    case False
    with xy \<open>\<not> 0 \<le> x\<close> show ?thesis by (simp add: py_int_def ceiling_mono)
  qed
qed

lemma game_time_mono: "t \<le> t' \<Longrightarrow> game_time t \<le> game_time t'"
  by (simp add: game_time_def py_int_mono)

lemma py_int_frac [pyops]: "0 \<le> x \<Longrightarrow> x < 1 \<Longrightarrow> py_int x = 0"
  by (simp add: py_int_def floor_eq_iff)

lemma game_time_below_ms [pyops]: "0 \<le> t \<Longrightarrow> t < 1/1000 \<Longrightarrow> game_time t = 0"
  by (simp add: game_time_def py_int_frac)

section \<open>Deques and lists\<close>

text \<open>
  A \<open>collections.deque\<close> is a list, front first. \<open>popleft\<close> raises
  \<open>IndexError\<close> on an empty deque. \<open>append\<close> on a deque built with
  \<open>maxlen = n\<close> discards from the front once the deque holds \<open>n\<close> items
  (with \<open>maxlen = 0\<close> the deque stays empty).
\<close>

fun popleft :: "'a list \<Rightarrow> ('a \<times> 'a list) result" where
  "popleft [] = Inl IndexError"
| "popleft (x # xs) = Inr (x, xs)"

definition append_bounded :: "nat \<Rightarrow> 'a list \<Rightarrow> 'a \<Rightarrow> 'a list" where
  "append_bounded n xs x = drop (Suc (length xs) - n) (xs @ [x])"

text \<open>Python's \<open>xs[i]\<close>: a negative index counts from the end.\<close>

definition py_get :: "'a list \<Rightarrow> int \<Rightarrow> 'a result" where
  "py_get xs i =
     (if - int (length xs) \<le> i \<and> i < int (length xs)
      then Inr (xs ! nat (i mod int (length xs))) else Inl IndexError)"

lemma popleft_Inr_iff [pyops]: "popleft xs = Inr (y, ys) \<longleftrightarrow> xs = y # ys"
  by (cases xs) auto

lemma popleft_Inl_iff [pyops]: "popleft xs = Inl e \<longleftrightarrow> xs = [] \<and> e = IndexError"
  by (cases xs) auto

lemma length_append_bounded [simp]:
  "length (append_bounded n xs x) = min n (Suc (length xs))"
  by (simp add: append_bounded_def)

lemma append_bounded_below [pyops]:
  "length xs < n \<Longrightarrow> append_bounded n xs x = xs @ [x]"
  by (simp add: append_bounded_def)

lemma append_bounded_full [pyops]:
  "length xs = n \<Longrightarrow> 0 < n \<Longrightarrow> append_bounded n xs x = tl xs @ [x]"
  by (cases xs) (auto simp: append_bounded_def)

lemma append_bounded_last [pyops]:
  "0 < n \<Longrightarrow> last (append_bounded n xs x) = x"
  by (simp add: append_bounded_def)

lemma py_get_neg [pyops]:
  assumes "0 < k"
  shows "py_get xs (- int k) =
     (if k \<le> length xs then Inr (xs ! (length xs - k)) else Inl IndexError)"
proof (cases "k \<le> length xs")
  case True
  then have "(- int k) mod int (length xs) = int (length xs - k)"
    using assms by (cases "k = length xs")
      (auto simp: zmod_zminus1_eq_if of_nat_diff dvd_imp_le mod_pos_pos_trivial)
  moreover have "nat (int (length xs) - int k) = length xs - k"
    by simp
  ultimately show ?thesis using True assms by (simp add: py_get_def)
next
  case False
  then show ?thesis by (simp add: py_get_def)
qed

text \<open>Counting the elements of a list that satisfy a test.\<close>

lemma length_filter_append_single [simp]:
  "length (filter P (xs @ [x])) = length (filter P xs) + (if P x then 1 else 0)"
  by simp

end
