(* ===== verification/LidarDriver.thy ===== *)
theory LidarDriver
  imports Prelude
begin

text \<open>
  The LiDAR driver of \<open>src/pylot/drivers/carla_lidar_driver_operator.py\<close>
  (class \<open>CarlaLidarDriverOperator\<close>): the gated-release component of the
  pipeline. The simulator callback \<open>process_point_clouds\<close> either sends a
  point cloud at once on the left stream (after the release stream closed
  with the top watermark) or pickles it into \<open>_pickled_messages\<close> and sends
  only a watermark on the right stream; \<open>on_watermark\<close> on the release stream
  sends the stored message and deletes it. The streams are modelled as the
  lists of messages sent so far; a pickled message is modelled by the value it
  unpickles to.
\<close>

section \<open>State and messages\<close>

datatype 'd message = Message timestamp 'd | WatermarkMessage timestamp

record 'd lidar_driver =
  release_data :: bool
  pickled_messages :: "timestamp \<rightharpoonup> 'd"
  left_stream :: "'d message list"
  right_stream :: "'d message list"

definition lidar_init :: "'d lidar_driver" where
  "lidar_init =
     \<lparr>release_data = False, pickled_messages = Map.empty, left_stream = [], right_stream = []\<rparr>"

text \<open>What the callback reads of a \<open>carla.LidarMeasurement\<close>: its time in seconds
  and its raw points.\<close>

record 'r simulator_pc =
  pc_timestamp :: rat
  raw_data :: "'r list"

section \<open>Handlers\<close>

text \<open>
  \<open>process_point_clouds\<close>, lines 48--77. The conversion
  \<open>PointCloud.from_simulator_point_cloud\<close> is a parameter \<open>from_pc\<close>.
\<close>

definition process_point_clouds ::
  "('r simulator_pc \<Rightarrow> 'd) \<Rightarrow> 'r simulator_pc \<Rightarrow> 'd lidar_driver \<Rightarrow> 'd lidar_driver result" where
  "process_point_clouds from_pc pc s =
     (let timestamp = sim_timestamp (pc_timestamp pc) in
      if raw_data pc = [] then Inl AssertionError
      else
        let data = from_pc pc in
        if release_data s then
          Inr (s\<lparr>left_stream := left_stream s @ [Message timestamp data, WatermarkMessage timestamp]\<rparr>)
        else
          Inr (s\<lparr>pickled_messages := (pickled_messages s)(timestamp \<mapsto> data),
                 right_stream := right_stream s @ [WatermarkMessage timestamp]\<rparr>))"

text \<open>\<open>on_watermark\<close>, lines 149--163. The dictionary read raises \<open>KeyError\<close>
  before anything is sent.\<close>

definition on_watermark :: "timestamp \<Rightarrow> 'd lidar_driver \<Rightarrow> 'd lidar_driver result" where
  "on_watermark t s =
     (if is_top t then Inr (s\<lparr>release_data := True\<rparr>)
      else
        case pickled_messages s t of
          None \<Rightarrow> Inl KeyError
        | Some d \<Rightarrow>
            Inr (s\<lparr>left_stream := left_stream s @ [Message t d, WatermarkMessage t],
                   pickled_messages := (pickled_messages s)(t := None)\<rparr>))"

section \<open>Runs\<close>

text \<open>
  The two entry points are serialised with respect to each other at the level
  of whole handlers (the callback holds \<open>_lock\<close>; erdos runs
  \<open>on_watermark\<close> on its own thread). A run is a sequence of events; an
  exception stops it.
\<close>

datatype 'r lidar_event = SimCallback "'r simulator_pc" | ReleaseWatermark timestamp

fun lidar_step ::
  "('r simulator_pc \<Rightarrow> 'd) \<Rightarrow> 'r lidar_event \<Rightarrow> 'd lidar_driver \<Rightarrow> 'd lidar_driver result" where
  "lidar_step from_pc (SimCallback pc) s = process_point_clouds from_pc pc s"
| "lidar_step from_pc (ReleaseWatermark t) s = on_watermark t s"

fun lidar_run ::
  "('r simulator_pc \<Rightarrow> 'd) \<Rightarrow> 'd lidar_driver \<Rightarrow> 'r lidar_event list \<Rightarrow> 'd lidar_driver result" where
  "lidar_run from_pc s [] = Inr s"
| "lidar_run from_pc s (e # es) =
     (case lidar_step from_pc e s of Inl err \<Rightarrow> Inl err | Inr s' \<Rightarrow> lidar_run from_pc s' es)"

text \<open>The keys the callbacks of a run offer, in order.\<close>

fun offered_keys :: "'r lidar_event list \<Rightarrow> timestamp list" where
  "offered_keys [] = []"
| "offered_keys (SimCallback pc # es) = sim_timestamp (pc_timestamp pc) # offered_keys es"
| "offered_keys (ReleaseWatermark _ # es) = offered_keys es"

text \<open>How many payload messages for key \<open>k\<close> the left stream carries, and whether
  \<open>k\<close> is held back in the pickle cache.\<close>

fun message_at :: "timestamp \<Rightarrow> 'd message \<Rightarrow> bool" where
  "message_at k (Message t _) = (t = k)"
| "message_at k (WatermarkMessage _) = False"

definition emitted :: "'d lidar_driver \<Rightarrow> timestamp \<Rightarrow> nat" where
  "emitted s k = length (filter (message_at k) (left_stream s))"

definition pending :: "'d lidar_driver \<Rightarrow> timestamp \<Rightarrow> nat" where
  "pending s k = (if k \<in> dom (pickled_messages s) then 1 else 0)"

text \<open>The left stream is a sequence of (payload, watermark) pairs for the same key.\<close>

fun well_paired :: "'d message list \<Rightarrow> bool" where
  "well_paired [] = True"
| "well_paired (Message t d # WatermarkMessage t' # ms) = (t = t' \<and> well_paired ms)"
| "well_paired _ = False"

section \<open>Lemmas\<close>

lemmas lidar_handler_defs = process_point_clouds_def on_watermark_def

lemma lidar_run_append:
  "lidar_run f s (es @ es') =
     (case lidar_run f s es of Inl err \<Rightarrow> Inl err | Inr s' \<Rightarrow> lidar_run f s' es')"
  by (induction es arbitrary: s) (auto split: sum.splits)

lemma well_paired_append_pair [simp]:
  "well_paired (ms @ [Message t d, WatermarkMessage t]) = well_paired ms"
  by (induction ms rule: well_paired.induct) auto

lemma lidar_step_well_paired:
  "lidar_step f e s = Inr s' \<Longrightarrow> well_paired (left_stream s) \<Longrightarrow> well_paired (left_stream s')"
  by (cases e) (auto simp: lidar_handler_defs Let_def split: if_splits option.splits)

lemma lidar_step_release_mono:
  "lidar_step f e s = Inr s' \<Longrightarrow> release_data s \<Longrightarrow> release_data s'"
  by (cases e) (auto simp: lidar_handler_defs Let_def split: if_splits option.splits)

text \<open>One step and the conservation count \<open>emitted + pending\<close>: a callback adds
  its key, a release moves a key from the cache to the stream.\<close>

lemma process_count:
  assumes "process_point_clouds f pc s = Inr s'"
    and "sim_timestamp (pc_timestamp pc) \<notin> dom (pickled_messages s)"
  shows "emitted s' k + pending s' k =
           emitted s k + pending s k + (if k = sim_timestamp (pc_timestamp pc) then 1 else 0)"
  using assms
  by (auto simp: process_point_clouds_def emitted_def pending_def Let_def split: if_splits)

lemma on_watermark_count:
  assumes "on_watermark t s = Inr s'"
  shows "emitted s' k + pending s' k = emitted s k + pending s k"
  using assms
  by (auto simp: on_watermark_def emitted_def pending_def split: if_splits option.splits)

lemma on_watermark_dom:
  "on_watermark t s = Inr s' \<Longrightarrow> dom (pickled_messages s') \<subseteq> dom (pickled_messages s)"
  by (auto simp: on_watermark_def split: if_splits option.splits)

lemma process_dom:
  "process_point_clouds f pc s = Inr s' \<Longrightarrow>
     dom (pickled_messages s') \<subseteq> insert (sim_timestamp (pc_timestamp pc)) (dom (pickled_messages s))"
  by (auto simp: process_point_clouds_def Let_def split: if_splits)

lemma lidar_run_count:
  assumes "lidar_run f s es = Inr s'"
    and "distinct (offered_keys es)"
    and "set (offered_keys es) \<inter> dom (pickled_messages s) = {}"
  shows "emitted s' k + pending s' k = emitted s k + pending s k + count_list (offered_keys es) k"
  using assms
proof (induction es arbitrary: s)
  case Nil
  then show ?case by simp
next
  case (Cons e es)
  from Cons.prems(1) obtain s1 where s1: "lidar_step f e s = Inr s1"
    and run: "lidar_run f s1 es = Inr s'"
    by (auto split: sum.splits)
  show ?case
  proof (cases e)
    case (SimCallback pc)
    let ?k = "sim_timestamp (pc_timestamp pc)"
    from Cons.prems(2,3) SimCallback have fresh: "?k \<notin> dom (pickled_messages s)"
      and notin: "?k \<notin> set (offered_keys es)" by auto
    from s1 SimCallback have p: "process_point_clouds f pc s = Inr s1" by simp
    have "set (offered_keys es) \<inter> dom (pickled_messages s1) = {}"
      using process_dom [OF p] Cons.prems(3) notin SimCallback by auto
    with Cons.IH run Cons.prems(2) SimCallback
    have "emitted s' k + pending s' k = emitted s1 k + pending s1 k + count_list (offered_keys es) k"
      by simp
    with process_count [OF p fresh] SimCallback show ?thesis by simp
  next
    case (ReleaseWatermark t)
    from s1 ReleaseWatermark have w: "on_watermark t s = Inr s1" by simp
    have "set (offered_keys es) \<inter> dom (pickled_messages s1) = {}"
      using on_watermark_dom [OF w] Cons.prems(3) ReleaseWatermark by auto
    with Cons.IH run Cons.prems(2) ReleaseWatermark
    have "emitted s' k + pending s' k = emitted s1 k + pending s1 k + count_list (offered_keys es) k"
      by simp
    with on_watermark_count [OF w] ReleaseWatermark show ?thesis by simp
  qed
qed

lemma lidar_run_well_paired:
  "lidar_run f s es = Inr s' \<Longrightarrow> well_paired (left_stream s) \<Longrightarrow> well_paired (left_stream s')"
  by (induction es arbitrary: s) (auto split: sum.splits dest: lidar_step_well_paired)

lemma lidar_run_release_mono:
  "lidar_run f s es = Inr s' \<Longrightarrow> release_data s \<Longrightarrow> release_data s'"
  by (induction es arbitrary: s) (auto split: sum.splits dest: lidar_step_release_mono)

section \<open>Properties\<close>

text \<open>C1 (exactly once): along any run from the initial state whose callbacks carry
  distinct game times, every offered point cloud is either on the left stream
  exactly once or still held in the pickle cache, never both.\<close>

theorem lidar_exactly_once:
  assumes "lidar_run f lidar_init es = Inr s"
    and "distinct (offered_keys es)"
  shows "emitted s k + pending s k = count_list (offered_keys es) k"
  using lidar_run_count [OF assms, of k]
  by (simp add: lidar_init_def emitted_def pending_def)

text \<open>C2 (gated offer and release round trip): a callback in gated mode followed by
  the release watermark of its key puts exactly the converted point cloud and
  the watermark on the left stream and gives the cache back as it was before the
  callback, without the key (unchanged for a key not cached before); a second
  release of the key raises \<open>KeyError\<close>.\<close>

theorem gated_offer_release:
  assumes "\<not> release_data s" and "raw_data pc \<noteq> []"
    and "k = sim_timestamp (pc_timestamp pc)"
    and "process_point_clouds f pc s = Inr s1"
  shows "\<exists>s2. on_watermark k s1 = Inr s2
           \<and> left_stream s2 = left_stream s @ [Message k (f pc), WatermarkMessage k]
           \<and> right_stream s2 = right_stream s @ [WatermarkMessage k]
           \<and> pickled_messages s2 = (pickled_messages s)(k := None)
           \<and> release_data s2 = release_data s
           \<and> on_watermark k s2 = Inl KeyError"
  using assms
  by (auto simp: lidar_handler_defs Let_def split: if_splits)

text \<open>C3 (pairing): the left stream of every run from the initial state is a sequence of
  payload/watermark pairs of the same timestamp.\<close>

theorem lidar_left_well_paired:
  assumes "lidar_run f lidar_init es = Inr s"
  shows "well_paired (left_stream s)"
proof -
  have "well_paired (left_stream (lidar_init :: 'd lidar_driver))"
    by (simp add: lidar_init_def)
  with assms show ?thesis by (rule lidar_run_well_paired)
qed

text \<open>C4 (one-way mode switch): the mode switch is one-way: once the top watermark has set
  \<open>_release_data\<close>, it stays set, and callbacks no longer touch the cache.\<close>

theorem release_mode_one_way:
  assumes "lidar_run f s es = Inr s'" and "release_data s"
  shows "release_data s' \<and> dom (pickled_messages s') \<subseteq> dom (pickled_messages s)"
  using assms
proof (induction es arbitrary: s)
  case Nil
  then show ?case by simp
next
  case (Cons e es)
  from Cons.prems(1) obtain s1 where s1: "lidar_step f e s = Inr s1"
    and run: "lidar_run f s1 es = Inr s'"
    by (auto split: sum.splits)
  from s1 Cons.prems(2) have r1: "release_data s1" by (rule lidar_step_release_mono)
  from s1 Cons.prems(2) have "dom (pickled_messages s1) \<subseteq> dom (pickled_messages s)"
    by (cases e) (auto simp: lidar_handler_defs Let_def split: if_splits option.splits)
  with Cons.IH [OF run r1] show ?case by blast
qed


section \<open>Witnesses\<close>

lemmas lidar_eval_simps = lidar_init_def lidar_handler_defs sim_timestamp_def game_time_def
  py_int_def Let_def emitted_def pending_def

theorem lidar_exactly_once_witness:
  "lidar_run raw_data lidar_init
     [SimCallback \<lparr>pc_timestamp = 1/10, raw_data = [1::nat]\<rparr>, ReleaseWatermark (TS [100]),
      ReleaseWatermark Top, SimCallback \<lparr>pc_timestamp = 2/10, raw_data = [2]\<rparr>] =
     Inr \<lparr>release_data = True, pickled_messages = Map.empty,
          left_stream = [Message (TS [100]) [1], WatermarkMessage (TS [100]),
                         Message (TS [200]) [2], WatermarkMessage (TS [200])],
          right_stream = [WatermarkMessage (TS [100])]\<rparr>
   \<and> distinct (offered_keys
       [SimCallback \<lparr>pc_timestamp = 1/10, raw_data = [1::nat]\<rparr>, ReleaseWatermark (TS [100]),
        ReleaseWatermark Top, SimCallback \<lparr>pc_timestamp = 2/10, raw_data = [2]\<rparr>])
   \<and> emitted \<lparr>release_data = True, pickled_messages = Map.empty,
          left_stream = [Message (TS [100]) [1::nat], WatermarkMessage (TS [100]),
                         Message (TS [200]) [2], WatermarkMessage (TS [200])],
          right_stream = [WatermarkMessage (TS [100])]\<rparr> (TS [100])
     + pending \<lparr>release_data = True, pickled_messages = Map.empty,
          left_stream = [Message (TS [100]) [1::nat], WatermarkMessage (TS [100]),
                         Message (TS [200]) [2], WatermarkMessage (TS [200])],
          right_stream = [WatermarkMessage (TS [100])]\<rparr> (TS [100]) = 1"
  (is "?run \<and> ?dist \<and> ?count")
proof -
  have run: ?run by (simp add: lidar_eval_simps)
  have dist: ?dist by (simp add: lidar_eval_simps)
  from lidar_exactly_once [OF run dist, of "TS [100]"] have ?count
    by (simp add: lidar_eval_simps)
  with run dist show ?thesis by blast
qed

theorem gated_offer_release_witness:
  "\<exists>s2. on_watermark (TS [100])
          \<lparr>release_data = False, pickled_messages = [TS [100] \<mapsto> [7::nat]],
           left_stream = [], right_stream = [WatermarkMessage (TS [100])]\<rparr> = Inr s2
        \<and> left_stream s2 = [Message (TS [100]) [7], WatermarkMessage (TS [100])]
        \<and> right_stream s2 = [WatermarkMessage (TS [100])]
        \<and> pickled_messages s2 = Map.empty \<and> \<not> release_data s2
        \<and> on_watermark (TS [100]) s2 = Inl KeyError"
proof -
  have p: "process_point_clouds raw_data \<lparr>pc_timestamp = 1/10, raw_data = [7::nat]\<rparr> lidar_init =
      Inr \<lparr>release_data = False, pickled_messages = [TS [100] \<mapsto> [7]],
           left_stream = [], right_stream = [WatermarkMessage (TS [100])]\<rparr>"
    by (simp add: lidar_eval_simps)
  have k: "TS [100] = sim_timestamp (pc_timestamp \<lparr>pc_timestamp = 1/10, raw_data = [7::nat]\<rparr>)"
    by (simp add: lidar_eval_simps)
  have "\<not> release_data (lidar_init :: nat list lidar_driver)" by (simp add: lidar_init_def)
  from gated_offer_release [OF this _ k p] show ?thesis
    by (simp add: lidar_init_def)
qed

theorem lidar_left_well_paired_witness:
  "lidar_run raw_data lidar_init
     [ReleaseWatermark Top, SimCallback \<lparr>pc_timestamp = 2/10, raw_data = [2::nat]\<rparr>] =
     Inr \<lparr>release_data = True, pickled_messages = Map.empty,
          left_stream = [Message (TS [200]) [2], WatermarkMessage (TS [200])],
          right_stream = []\<rparr>
   \<and> well_paired [Message (TS [200]) [2::nat], WatermarkMessage (TS [200])]"
proof -
  have run: "lidar_run raw_data lidar_init
     [ReleaseWatermark Top, SimCallback \<lparr>pc_timestamp = 2/10, raw_data = [2::nat]\<rparr>] =
     Inr \<lparr>release_data = True, pickled_messages = Map.empty,
          left_stream = [Message (TS [200]) [2], WatermarkMessage (TS [200])],
          right_stream = []\<rparr>"
    by (simp add: lidar_eval_simps)
  from lidar_left_well_paired [OF run] run show ?thesis by simp
qed

theorem release_mode_one_way_witness:
  "lidar_run raw_data \<lparr>release_data = True, pickled_messages = [TS [5] \<mapsto> [0::nat]],
        left_stream = [], right_stream = []\<rparr>
     [SimCallback \<lparr>pc_timestamp = 2/10, raw_data = [2]\<rparr>, ReleaseWatermark (TS [5])] =
     Inr \<lparr>release_data = True, pickled_messages = Map.empty,
          left_stream = [Message (TS [200]) [2], WatermarkMessage (TS [200]),
                         Message (TS [5]) [0], WatermarkMessage (TS [5])],
          right_stream = []\<rparr>
   \<and> dom (Map.empty :: timestamp \<rightharpoonup> nat list) \<subseteq> dom [TS [5] \<mapsto> [0::nat]]"
proof -
  have run: "lidar_run raw_data \<lparr>release_data = True, pickled_messages = [TS [5] \<mapsto> [0::nat]],
        left_stream = [], right_stream = []\<rparr>
     [SimCallback \<lparr>pc_timestamp = 2/10, raw_data = [2]\<rparr>, ReleaseWatermark (TS [5])] =
     Inr \<lparr>release_data = True, pickled_messages = Map.empty,
          left_stream = [Message (TS [200]) [2], WatermarkMessage (TS [200]),
                         Message (TS [5]) [0], WatermarkMessage (TS [5])],
          right_stream = []\<rparr>"
    by (simp add: lidar_eval_simps fun_eq_iff)
  from release_mode_one_way [OF run] run show ?thesis by simp
qed


end
