(* ===== verification/LidarThreads.thy ===== *)
theory LidarThreads
  imports LidarDriver
begin

text \<open>
  The two threads of \<open>CarlaLidarDriverOperator\<close>
  (\<open>src/pylot/drivers/carla_lidar_driver_operator.py\<close>) interleaved. The
  simulator thread runs \<open>process_point_clouds\<close> (lines 48--77) as one atomic
  step: its body holds \<open>self._lock\<close>, and the only write it shares with the
  other thread, the cache store of line 76, is one dictionary assignment under
  \<open>self._pickle_lock\<close>. The erdos thread runs \<open>on_watermark\<close> (lines
  149--163), which takes neither lock for its read of the cache: a non-top
  watermark is two steps, the unlocked read and sends of lines 155--161
  (\<open>send_pickled\<close>) and the delete of lines 162--163 under
  \<open>_pickle_lock\<close> (\<open>delete_pickled\<close>). A ghost field records the keys the
  callbacks offered, with their payloads, in order.
\<close>

section \<open>The split release handler\<close>

text \<open>Lines 155--161: read the cache (\<open>KeyError\<close> when absent), send the payload and
  the watermark on the left stream.\<close>

definition send_pickled :: "timestamp \<Rightarrow> 'd lidar_driver \<Rightarrow> 'd lidar_driver result" where
  "send_pickled t s =
     (case pickled_messages s t of
        None \<Rightarrow> Inl KeyError
      | Some d \<Rightarrow> Inr (s\<lparr>left_stream := left_stream s @ [Message t d, WatermarkMessage t]\<rparr>))"

text \<open>Lines 162--163: \<open>del self._pickled_messages[t]\<close>, \<open>KeyError\<close> when absent.\<close>

definition delete_pickled :: "timestamp \<Rightarrow> 'd lidar_driver \<Rightarrow> 'd lidar_driver result" where
  "delete_pickled t s =
     (if t \<in> dom (pickled_messages s) then Inr (s\<lparr>pickled_messages := (pickled_messages s)(t := None)\<rparr>)
      else Inl KeyError)"

section \<open>Threads\<close>

text \<open>Where the erdos thread is: between two handler calls, between the two steps of a
  release, or stopped by an exception.\<close>

datatype wm_pc = WIdle | WSent timestamp | WFailed py_error

record 'd lidar_threads =
  drv :: "'d lidar_driver"
  wm_at :: wm_pc
  offered_log :: "(timestamp \<times> 'd) list"

definition threads_init :: "'d lidar_threads" where
  "threads_init = \<lparr>drv = lidar_init, wm_at = WIdle, offered_log = []\<rparr>"

text \<open>One step of either thread. A callback that fails its assertion changes nothing
  (the exception ends that callback before any write) and is left out.\<close>

inductive lidar_thread_step ::
  "('r simulator_pc \<Rightarrow> 'd) \<Rightarrow> 'd lidar_threads \<Rightarrow> 'd lidar_threads \<Rightarrow> bool" for f where
  callback:
    "process_point_clouds f pc (drv c) = Inr s' \<Longrightarrow>
     lidar_thread_step f c
       (c\<lparr>drv := s', offered_log := offered_log c @ [(sim_timestamp (pc_timestamp pc), f pc)]\<rparr>)"
| release_top:
    "wm_at c = WIdle \<Longrightarrow> is_top t \<Longrightarrow> on_watermark t (drv c) = Inr s' \<Longrightarrow>
     lidar_thread_step f c (c\<lparr>drv := s'\<rparr>)"
| release_send:
    "wm_at c = WIdle \<Longrightarrow> \<not> is_top t \<Longrightarrow> send_pickled t (drv c) = Inr s' \<Longrightarrow>
     lidar_thread_step f c (c\<lparr>drv := s', wm_at := WSent t\<rparr>)"
| release_send_fail:
    "wm_at c = WIdle \<Longrightarrow> \<not> is_top t \<Longrightarrow> send_pickled t (drv c) = Inl e \<Longrightarrow>
     lidar_thread_step f c (c\<lparr>wm_at := WFailed e\<rparr>)"
| release_delete:
    "wm_at c = WSent t \<Longrightarrow> delete_pickled t (drv c) = Inr s' \<Longrightarrow>
     lidar_thread_step f c (c\<lparr>drv := s', wm_at := WIdle\<rparr>)"
| release_delete_fail:
    "wm_at c = WSent t \<Longrightarrow> delete_pickled t (drv c) = Inl e \<Longrightarrow>
     lidar_thread_step f c (c\<lparr>wm_at := WFailed e\<rparr>)"

inductive lidar_reach :: "('r simulator_pc \<Rightarrow> 'd) \<Rightarrow> 'd lidar_threads \<Rightarrow> bool" for f where
  init: "lidar_reach f threads_init"
| step: "lidar_reach f c \<Longrightarrow> lidar_thread_step f c c' \<Longrightarrow> lidar_reach f c'"

text \<open>The count of a key still to be sent: held in the cache, and not the key whose
  payload the erdos thread has already sent.\<close>

definition unsent :: "'d lidar_threads \<Rightarrow> timestamp \<Rightarrow> nat" where
  "unsent c k = (if wm_at c = WSent k then 0 else pending (drv c) k)"

text \<open>The driver state the thread state stands for: the release in flight counted as
  done.\<close>

definition settled :: "'d lidar_threads \<Rightarrow> 'd lidar_driver" where
  "settled c =
     (case wm_at c of
        WSent t \<Rightarrow> (drv c)\<lparr>pickled_messages := (pickled_messages (drv c))(t := None)\<rparr>
      | _ \<Rightarrow> drv c)"

definition sequential :: "('r simulator_pc \<Rightarrow> 'd) \<Rightarrow> 'd lidar_threads \<Rightarrow> bool" where
  "sequential f c \<longleftrightarrow>
     (case wm_at c of
        WFailed _ \<Rightarrow> True
      | _ \<Rightarrow> (\<exists>es. lidar_run f lidar_init es = Inr (settled c)
                \<and> offered_keys es = map fst (offered_log c)))"

text \<open>A payload for key \<open>k\<close> that is on the left stream or in the cache.\<close>

definition delivered_or_held :: "'d lidar_driver \<Rightarrow> timestamp \<Rightarrow> 'd \<Rightarrow> bool" where
  "delivered_or_held s k d \<longleftrightarrow> Message k d \<in> set (left_stream s) \<or> pickled_messages s k = Some d"

section \<open>Lemmas\<close>

inductive_cases lidar_thread_stepE: "lidar_thread_step f c c'"

text \<open>Sequential release is the two steps in order.\<close>

lemma on_watermark_split:
  "\<not> is_top t \<Longrightarrow>
   on_watermark t s = (case send_pickled t s of Inl e \<Rightarrow> Inl e | Inr s1 \<Rightarrow> delete_pickled t s1)"
  by (auto simp: on_watermark_def send_pickled_def delete_pickled_def split: option.splits)

lemma send_pickled_Inr:
  "send_pickled t s = Inr s' \<longleftrightarrow>
     (\<exists>d. pickled_messages s t = Some d
          \<and> s' = s\<lparr>left_stream := left_stream s @ [Message t d, WatermarkMessage t]\<rparr>)"
  by (auto simp: send_pickled_def split: option.splits)

lemma delete_pickled_Inr:
  "delete_pickled t s = Inr s' \<longleftrightarrow>
     t \<in> dom (pickled_messages s) \<and> s' = s\<lparr>pickled_messages := (pickled_messages s)(t := None)\<rparr>"
  by (auto simp: delete_pickled_def)

text \<open>The log only grows, by the key of a callback.\<close>

lemma step_offered_log:
  "lidar_thread_step f c c' \<Longrightarrow>
   offered_log c' = offered_log c \<or> (\<exists>x. offered_log c' = offered_log c @ [x])"
  by (erule lidar_thread_stepE) auto

lemma step_distinct_log:
  "lidar_thread_step f c c' \<Longrightarrow> distinct (map fst (offered_log c')) \<Longrightarrow>
   distinct (map fst (offered_log c))"
  using step_offered_log by fastforce

text \<open>The basic invariant: the cache holds only offered keys, and the key being
  released is still in the cache.\<close>

definition cache_ok :: "'d lidar_threads \<Rightarrow> bool" where
  "cache_ok c \<longleftrightarrow> dom (pickled_messages (drv c)) \<subseteq> fst ` set (offered_log c)
     \<and> (\<forall>t. wm_at c = WSent t \<longrightarrow> t \<in> dom (pickled_messages (drv c)))"

lemma step_cache_ok:
  assumes "lidar_thread_step f c c'" and "cache_ok c"
  shows "cache_ok c'"
  using assms
proof (induction rule: lidar_thread_step.induct)
  case (callback pc c s')
  then show ?case
    by (auto simp: cache_ok_def process_point_clouds_def Let_def subset_iff domIff split: if_splits)
next
  case (release_top c t s')
  then show ?case by (auto simp: cache_ok_def on_watermark_def)
next
  case (release_send c t s')
  then show ?case by (auto simp: cache_ok_def send_pickled_Inr)
next
  case (release_delete c t s')
  then show ?case by (auto simp: cache_ok_def delete_pickled_Inr)
qed (auto simp: cache_ok_def)

lemma reach_cache_ok: "lidar_reach f c \<Longrightarrow> cache_ok c"
proof (induction rule: lidar_reach.induct)
  case init
  then show ?case by (simp add: cache_ok_def threads_init_def lidar_init_def)
next
  case (step c c')
  from step.hyps(2) step.IH show ?case by (rule step_cache_ok)
qed

text \<open>One step and the count \<open>emitted + unsent\<close>: a callback adds its key, every other
  step keeps the count.\<close>

lemma step_count:
  assumes "lidar_thread_step f c c'" and "cache_ok c" and "distinct (map fst (offered_log c'))"
  shows "emitted (drv c') k + unsent c' k + count_list (map fst (offered_log c)) k
           = emitted (drv c) k + unsent c k + count_list (map fst (offered_log c')) k"
  using assms
proof (induction rule: lidar_thread_step.induct)
  case (callback pc c s')
  let ?kk = "sim_timestamp (pc_timestamp pc)"
  from callback.prems have fresh: "?kk \<notin> dom (pickled_messages (drv c))"
    by (auto simp: cache_ok_def)
  moreover from callback.prems(1) fresh have sent: "wm_at c \<noteq> WSent ?kk"
    by (auto simp: cache_ok_def)
  ultimately show ?case using callback.hyps
    by (auto simp: process_point_clouds_def Let_def unsent_def emitted_def pending_def
        split: if_splits)
next
  case (release_top c t s')
  then show ?case by (auto simp: on_watermark_def unsent_def emitted_def pending_def)
next
  case (release_send c t s')
  then show ?case by (auto simp: send_pickled_Inr unsent_def emitted_def pending_def split: if_splits)
next
  case (release_send_fail c t e)
  then show ?case by (simp add: unsent_def)
next
  case (release_delete c t s')
  then show ?case by (auto simp: delete_pickled_Inr unsent_def emitted_def pending_def)
next
  case (release_delete_fail c t e)
  then show ?case by (simp add: cache_ok_def delete_pickled_def)
qed

lemma reach_count:
  "lidar_reach f c \<Longrightarrow> distinct (map fst (offered_log c)) \<Longrightarrow>
   emitted (drv c) k + unsent c k = count_list (map fst (offered_log c)) k"
proof (induction rule: lidar_reach.induct)
  case init
  then show ?case
    by (simp add: threads_init_def lidar_init_def emitted_def unsent_def pending_def)
next
  case (step c c')
  have "distinct (map fst (offered_log c))" using step.hyps(2) step.prems by (rule step_distinct_log)
  with step.IH have "emitted (drv c) k + unsent c k = count_list (map fst (offered_log c)) k" .
  with step_count [OF step.hyps(2) reach_cache_ok [OF step.hyps(1)] step.prems, of k]
  show ?case by simp
qed

section \<open>Linearisation\<close>

lemma offered_keys_append [simp]: "offered_keys (es @ es') = offered_keys es @ offered_keys es'"
  by (induction es rule: offered_keys.induct) auto

lemma lidar_run_snoc:
  "lidar_run f s es = Inr s1 \<Longrightarrow> lidar_step f e s1 = Inr s2 \<Longrightarrow> lidar_run f s (es @ [e]) = Inr s2"
  by (simp add: lidar_run_append)

text \<open>A callback for another key commutes with the pending delete.\<close>

lemma process_point_clouds_forget:
  assumes "process_point_clouds f pc s = Inr s'" and "sim_timestamp (pc_timestamp pc) \<noteq> t"
  shows "process_point_clouds f pc (s\<lparr>pickled_messages := (pickled_messages s)(t := None)\<rparr>)
           = Inr (s'\<lparr>pickled_messages := (pickled_messages s')(t := None)\<rparr>)"
  using assms
  by (auto simp: process_point_clouds_def Let_def fun_upd_twist split: if_splits)

lemma step_sequential:
  assumes "lidar_thread_step f c c'" and "cache_ok c" and "distinct (map fst (offered_log c'))"
    and "sequential f c"
  shows "sequential f c'"
  using assms
proof (induction rule: lidar_thread_step.induct)
  case (callback pc c s')
  let ?kk = "sim_timestamp (pc_timestamp pc)"
  from callback.prems(1,2) have sent: "\<And>t. wm_at c = WSent t \<Longrightarrow> ?kk \<noteq> t"
    by (auto simp: cache_ok_def)
  show ?case
  proof (cases "wm_at c")
    case WIdle
    with callback.prems(3) obtain es where "lidar_run f lidar_init es = Inr (drv c)"
      and "offered_keys es = map fst (offered_log c)" by (auto simp: sequential_def settled_def)
    with callback.hyps WIdle show ?thesis
      by (auto simp: sequential_def settled_def intro!: exI [of _ "es @ [SimCallback pc]"]
          intro: lidar_run_snoc)
  next
    case (WSent t)
    with callback.prems(3) obtain es
      where "lidar_run f lidar_init es
               = Inr ((drv c)\<lparr>pickled_messages := (pickled_messages (drv c))(t := None)\<rparr>)"
      and "offered_keys es = map fst (offered_log c)" by (auto simp: sequential_def settled_def)
    with process_point_clouds_forget [OF callback.hyps sent [OF WSent]] WSent
    show ?thesis
      by (auto simp: sequential_def settled_def intro!: exI [of _ "es @ [SimCallback pc]"]
          intro: lidar_run_snoc)
  next
    case (WFailed e)
    then show ?thesis by (simp add: sequential_def)
  qed
next
  case (release_top c t s')
  then obtain es where "lidar_run f lidar_init es = Inr (drv c)"
    and "offered_keys es = map fst (offered_log c)" by (auto simp: sequential_def settled_def)
  with release_top.hyps show ?case
    by (auto simp: sequential_def settled_def intro!: exI [of _ "es @ [ReleaseWatermark t]"]
        intro: lidar_run_snoc)
next
  case (release_send c t s')
  then obtain es where run: "lidar_run f lidar_init es = Inr (drv c)"
    and keys: "offered_keys es = map fst (offered_log c)" by (auto simp: sequential_def settled_def)
  from release_send.hyps have
    "on_watermark t (drv c) = Inr (s'\<lparr>pickled_messages := (pickled_messages s')(t := None)\<rparr>)"
    by (auto simp: on_watermark_def send_pickled_Inr)
  with run keys show ?case
    by (auto simp: sequential_def settled_def intro!: exI [of _ "es @ [ReleaseWatermark t]"]
        intro: lidar_run_snoc)
next
  case (release_delete c t s')
  then show ?case by (auto simp: sequential_def settled_def delete_pickled_Inr)
qed (simp_all add: sequential_def)

lemma reach_sequential:
  "lidar_reach f c \<Longrightarrow> distinct (map fst (offered_log c)) \<Longrightarrow> sequential f c"
proof (induction rule: lidar_reach.induct)
  case init
  have "lidar_run f lidar_init [] = Inr lidar_init \<and> offered_keys [] = ([] :: timestamp list)"
    by simp
  then show ?case
    unfolding sequential_def settled_def threads_init_def by (auto intro!: exI [of _ "[]"])
next
  case (step c c')
  have "distinct (map fst (offered_log c))" using step.hyps(2) step.prems by (rule step_distinct_log)
  with step.IH have "sequential f c" .
  with step.hyps(2) reach_cache_ok [OF step.hyps(1)] step.prems show ?case
    by (rule step_sequential)
qed

text \<open>Conversely every sequential run is an interleaving in which each release runs its
  two steps back to back.\<close>

lemma run_reach:
  assumes "lidar_reach f c" and "wm_at c = WIdle" and "lidar_run f (drv c) es = Inr s"
  shows "\<exists>c'. lidar_reach f c' \<and> wm_at c' = WIdle \<and> drv c' = s
           \<and> map fst (offered_log c') = map fst (offered_log c) @ offered_keys es"
  using assms
proof (induction es arbitrary: c)
  case Nil
  then show ?case by auto
next
  case (Cons e es)
  from Cons.prems(3) obtain s1 where s1: "lidar_step f e (drv c) = Inr s1"
    and run: "lidar_run f s1 es = Inr s" by (auto split: sum.splits)
  obtain c1 where r1: "lidar_reach f c1" and w1: "wm_at c1 = WIdle" and d1: "drv c1 = s1"
    and l1: "map fst (offered_log c1) = map fst (offered_log c) @ offered_keys [e]"
  proof (cases e)
    case (SimCallback pc)
    let ?c1 = "c\<lparr>drv := s1, offered_log := offered_log c @ [(sim_timestamp (pc_timestamp pc), f pc)]\<rparr>"
    from s1 SimCallback have "lidar_thread_step f c ?c1"
      by (auto intro: lidar_thread_step.callback)
    with Cons.prems(1) have "lidar_reach f ?c1" by (rule lidar_reach.step)
    with SimCallback Cons.prems(2) show ?thesis by (intro that [of ?c1]) simp_all
  next
    case (ReleaseWatermark t)
    show ?thesis
    proof (cases "is_top t")
      case True
      from s1 ReleaseWatermark have "on_watermark t (drv c) = Inr s1" by simp
      with Cons.prems(2) True have "lidar_thread_step f c (c\<lparr>drv := s1\<rparr>)"
        by (rule lidar_thread_step.release_top)
      with Cons.prems(1) have "lidar_reach f (c\<lparr>drv := s1\<rparr>)" by (rule lidar_reach.step)
      with ReleaseWatermark Cons.prems(2) show ?thesis
        by (intro that [of "c\<lparr>drv := s1\<rparr>"]) simp_all
    next
      case False
      with s1 ReleaseWatermark obtain s0 where snd: "send_pickled t (drv c) = Inr s0"
        and del: "delete_pickled t s0 = Inr s1"
        by (auto simp: on_watermark_split split: sum.splits)
      let ?c0 = "c\<lparr>drv := s0, wm_at := WSent t\<rparr>"
      have "lidar_reach f ?c0"
        using Cons.prems(1) lidar_thread_step.release_send [OF Cons.prems(2) False snd]
        by (rule lidar_reach.step)
      moreover have "lidar_thread_step f ?c0 (?c0\<lparr>drv := s1, wm_at := WIdle\<rparr>)"
        using lidar_thread_step.release_delete [of ?c0 t s1] del by simp
      ultimately have "lidar_reach f (?c0\<lparr>drv := s1, wm_at := WIdle\<rparr>)"
        by (rule lidar_reach.step)
      with ReleaseWatermark show ?thesis
        by (intro that [of "?c0\<lparr>drv := s1, wm_at := WIdle\<rparr>"]) simp_all
    qed
  qed
  have ek: "offered_keys (e # es) = offered_keys [e] @ offered_keys es"
    using offered_keys_append [of "[e]" es] by simp
  from Cons.IH [OF r1 w1] run d1 l1 ek show ?case by auto
qed

section \<open>Stepping to a given state\<close>

lemma callback_eqI:
  "process_point_clouds f pc (drv c) = Inr s' \<Longrightarrow>
   c' = c\<lparr>drv := s', offered_log := offered_log c @ [(sim_timestamp (pc_timestamp pc), f pc)]\<rparr> \<Longrightarrow>
   lidar_thread_step f c c'"
  by (simp add: lidar_thread_step.callback)

lemma release_send_eqI:
  "wm_at c = WIdle \<Longrightarrow> \<not> is_top t \<Longrightarrow> send_pickled t (drv c) = Inr s' \<Longrightarrow>
   c' = c\<lparr>drv := s', wm_at := WSent t\<rparr> \<Longrightarrow> lidar_thread_step f c c'"
  by (simp add: lidar_thread_step.release_send)

lemma release_delete_eqI:
  "wm_at c = WSent t \<Longrightarrow> delete_pickled t (drv c) = Inr s' \<Longrightarrow>
   c' = c\<lparr>drv := s', wm_at := WIdle\<rparr> \<Longrightarrow> lidar_thread_step f c c'"
  by (simp add: lidar_thread_step.release_delete)

lemmas threads_eval_simps = lidar_init_def lidar_handler_defs sim_timestamp_def Let_def
  emitted_def pending_def threads_init_def send_pickled_def delete_pickled_def
  unsent_def delivered_or_held_def game_time_below_ms

section \<open>The newest payload of a key in sequential runs\<close>

lemma lidar_step_keeps:
  assumes "lidar_step f e s = Inr s'" and "delivered_or_held s k d"
    and "\<forall>pc. e = SimCallback pc \<longrightarrow> sim_timestamp (pc_timestamp pc) \<noteq> k"
  shows "delivered_or_held s' k d"
  using assms
proof (cases e)
  case (SimCallback pc)
  with assms show ?thesis
    by (auto simp: delivered_or_held_def process_point_clouds_def Let_def split: if_splits)
next
  case (ReleaseWatermark t)
  with assms show ?thesis
    by (auto simp: delivered_or_held_def on_watermark_def split: if_splits option.splits)
qed

lemma lidar_run_keeps:
  "lidar_run f s es = Inr s' \<Longrightarrow> delivered_or_held s k d \<Longrightarrow> k \<notin> set (offered_keys es) \<Longrightarrow>
   delivered_or_held s' k d"
proof (induction es arbitrary: s)
  case Nil
  then show ?case by simp
next
  case (Cons e es)
  from Cons.prems(1) obtain s1 where s1: "lidar_step f e s = Inr s1"
    and run: "lidar_run f s1 es = Inr s'" by (auto split: sum.splits)
  have e: "\<forall>pc. e = SimCallback pc \<longrightarrow> sim_timestamp (pc_timestamp pc) \<noteq> k"
    using Cons.prems(3) by (cases e) auto
  have es: "k \<notin> set (offered_keys es)"
    using Cons.prems(3) by (cases e) simp_all
  from lidar_step_keeps [OF s1 Cons.prems(2) e] have "delivered_or_held s1 k d" .
  from Cons.IH [OF run this es] show ?case .
qed

lemma process_delivered_or_held:
  "process_point_clouds f pc s = Inr s' \<Longrightarrow>
   delivered_or_held s' (sim_timestamp (pc_timestamp pc)) (f pc)"
  by (auto simp: process_point_clouds_def delivered_or_held_def Let_def split: if_splits)

section \<open>Progress of releases\<close>

text \<open>The erdos thread can always finish a release in flight (the key is still
  cached, by \<open>cache_ok\<close>) and release any cached key in two steps.\<close>

lemma release_key_steps:
  assumes "wm_at c = WIdle" and "\<not> is_top k" and "pickled_messages (drv c) k = Some d"
  shows "\<exists>c'. (lidar_thread_step f)\<^sup>*\<^sup>* c c' \<and> wm_at c' = WIdle
           \<and> pickled_messages (drv c') k = None
           \<and> left_stream (drv c') = left_stream (drv c) @ [Message k d, WatermarkMessage k]"
proof -
  let ?s1 = "(drv c)\<lparr>left_stream := left_stream (drv c) @ [Message k d, WatermarkMessage k]\<rparr>"
  let ?c1 = "c\<lparr>drv := ?s1, wm_at := WSent k\<rparr>"
  let ?s2 = "?s1\<lparr>pickled_messages := (pickled_messages ?s1)(k := None)\<rparr>"
  let ?c2 = "?c1\<lparr>drv := ?s2, wm_at := WIdle\<rparr>"
  have "lidar_thread_step f c ?c1"
    using assms by (intro release_send_eqI [of c k ?s1]) (simp_all add: send_pickled_def)
  moreover have "lidar_thread_step f ?c1 ?c2"
    using assms by (intro release_delete_eqI [of ?c1 k ?s2]) (simp_all add: delete_pickled_def domIff)
  ultimately have "(lidar_thread_step f)\<^sup>*\<^sup>* c ?c2" by simp
  then show ?thesis by (intro exI [of _ ?c2]) simp
qed

lemma finish_in_flight:
  assumes "lidar_reach f c" and "wm_at c = WSent t"
  shows "\<exists>c'. lidar_thread_step f c c' \<and> wm_at c' = WIdle
           \<and> drv c' = (drv c)\<lparr>pickled_messages := (pickled_messages (drv c))(t := None)\<rparr>"
proof -
  from reach_cache_ok [OF assms(1)] assms(2) have "t \<in> dom (pickled_messages (drv c))"
    by (simp add: cache_ok_def)
  note dom = this
  let ?c' = "c\<lparr>drv := (drv c)\<lparr>pickled_messages := (pickled_messages (drv c))(t := None)\<rparr>,
                wm_at := WIdle\<rparr>"
  have "lidar_thread_step f c ?c'"
    using assms(2) dom by (intro release_delete_eqI) (auto simp: delete_pickled_def)
  then show ?thesis by (intro exI [of _ ?c']) simp
qed

section \<open>A release in flight\<close>

text \<open>A gated callback at game time 0, then the first step of its release: the
  payload is sent, its cache slot not yet deleted.\<close>

lemma release_in_flight_reach:
  "lidar_reach raw_data
     \<lparr>drv = \<lparr>release_data = False, pickled_messages = [TS [0] \<mapsto> [1::nat]],
             left_stream = [Message (TS [0]) [1], WatermarkMessage (TS [0])],
             right_stream = [WatermarkMessage (TS [0])]\<rparr>,
      wm_at = WSent (TS [0]), offered_log = [(TS [0], [1])]\<rparr>"
proof -
  let ?c1 = "\<lparr>drv = \<lparr>release_data = False, pickled_messages = [TS [0] \<mapsto> [1::nat]],
                   left_stream = [], right_stream = [WatermarkMessage (TS [0])]\<rparr>,
              wm_at = WIdle, offered_log = [(TS [0], [1])]\<rparr>"
  have "lidar_thread_step raw_data threads_init ?c1"
    by (rule callback_eqI [where pc = "\<lparr>pc_timestamp = 1/10000, raw_data = [1::nat]\<rparr>"])
      (simp_all add: threads_eval_simps)
  with lidar_reach.init have "lidar_reach raw_data ?c1" by (rule lidar_reach.step)
  moreover have "lidar_thread_step raw_data ?c1
     \<lparr>drv = \<lparr>release_data = False, pickled_messages = [TS [0] \<mapsto> [1::nat]],
             left_stream = [Message (TS [0]) [1], WatermarkMessage (TS [0])],
             right_stream = [WatermarkMessage (TS [0])]\<rparr>,
      wm_at = WSent (TS [0]), offered_log = [(TS [0], [1])]\<rparr>"
    by (rule release_send_eqI [where t = "TS [0]"]) (simp_all add: threads_eval_simps)
  ultimately show ?thesis by (rule lidar_reach.step)
qed

section \<open>Properties\<close>

text \<open>C28 (exactly once under interleaving): in every interleaving of the simulator
  callback with the two steps of the release handler, from the initial state and
  with callbacks of distinct game times, each offered key is on the left stream
  or still to be sent (in the cache and not in flight), exactly once.\<close>

theorem threads_exactly_once:
  "lidar_reach f c \<Longrightarrow> distinct (map fst (offered_log c)) \<Longrightarrow>
   emitted (drv c) k + unsent c k = count_list (map fst (offered_log c)) k"
proof (induction rule: lidar_reach.induct)
  case init
  then show ?case
    by (simp add: threads_init_def lidar_init_def emitted_def unsent_def pending_def)
next
  case (step c c')
  have "distinct (map fst (offered_log c))" using step.hyps(2) step.prems by (rule step_distinct_log)
  with step.IH have "emitted (drv c) k + unsent c k = count_list (map fst (offered_log c)) k" .
  with step_count [OF step.hyps(2) reach_cache_ok [OF step.hyps(1)] step.prems, of k]
  show ?case by simp
qed

text \<open>C29 (linearisable for distinct keys): with callbacks of distinct game times, the
  driver states the two threads reach between handler calls are exactly the
  states of sequential runs (each handler call atomic) offering the same keys.\<close>

theorem threads_linearizable:
  assumes "distinct ks"
  shows "(\<exists>c. lidar_reach f c \<and> wm_at c = WIdle \<and> drv c = s \<and> map fst (offered_log c) = ks)
         \<longleftrightarrow> (\<exists>es. lidar_run f lidar_init es = Inr s \<and> offered_keys es = ks)"
proof
  assume "\<exists>c. lidar_reach f c \<and> wm_at c = WIdle \<and> drv c = s \<and> map fst (offered_log c) = ks"
  then obtain c where r: "lidar_reach f c" and w: "wm_at c = WIdle" and d: "drv c = s"
    and l: "map fst (offered_log c) = ks" by blast
  from reach_sequential [OF r] assms l have "sequential f c" by simp
  with w d l show "\<exists>es. lidar_run f lidar_init es = Inr s \<and> offered_keys es = ks"
    by (simp add: sequential_def settled_def)
next
  assume "\<exists>es. lidar_run f lidar_init es = Inr s \<and> offered_keys es = ks"
  then obtain es where "lidar_run f lidar_init es = Inr s" and "offered_keys es = ks" by blast
  with run_reach [OF lidar_reach.init, where es = es and s = s]
  show "\<exists>c. lidar_reach f c \<and> wm_at c = WIdle \<and> drv c = s \<and> map fst (offered_log c) = ks"
    by (simp add: threads_init_def)
qed

text \<open>C30 (sequential runs keep the newest payload): in a sequential run, the payload
  of the last callback for a game time is afterwards on the left stream or in the
  cache; a duplicate game time can only replace an older payload.\<close>

theorem sequential_newest_kept:
  assumes "lidar_run f s (es1 @ SimCallback pc # es2) = Inr s'"
    and "sim_timestamp (pc_timestamp pc) \<notin> set (offered_keys es2)"
  shows "delivered_or_held s' (sim_timestamp (pc_timestamp pc)) (f pc)"
proof -
  from assms(1) obtain s1 s2 where p: "process_point_clouds f pc s1 = Inr s2"
    and run2: "lidar_run f s2 es2 = Inr s'"
    by (auto simp: lidar_run_append split: sum.splits)
  from p have "delivered_or_held s2 (sim_timestamp (pc_timestamp pc)) (f pc)"
    by (rule process_delivered_or_held)
  from lidar_run_keeps [OF run2 this assms(2)] show ?thesis .
qed

text \<open>C31 (release race): two callbacks less than a millisecond apart share a game
  time. If the second stores its payload between the unlocked read of line 157 and
  the delete of line 163, the delete removes it unsent: the newest payload is lost,
  which no sequential run (C30) allows.\<close>

theorem release_race_loses_newest:
  "\<exists>c. lidar_reach raw_data c \<and> wm_at c = WIdle
     \<and> offered_log c = [(TS [0], [1::nat]), (TS [0], [2])]
     \<and> \<not> delivered_or_held (drv c) (TS [0]) [2]"
proof -
  let ?pc2 = "\<lparr>pc_timestamp = 3/10000, raw_data = [2::nat]\<rparr>"
  let ?c2 = "\<lparr>drv = \<lparr>release_data = False, pickled_messages = [TS [0] \<mapsto> [1::nat]],
                   left_stream = [Message (TS [0]) [1], WatermarkMessage (TS [0])],
                   right_stream = [WatermarkMessage (TS [0])]\<rparr>,
              wm_at = WSent (TS [0]), offered_log = [(TS [0], [1])]\<rparr>"
  let ?c3 = "\<lparr>drv = \<lparr>release_data = False, pickled_messages = [TS [0] \<mapsto> [2::nat]],
                   left_stream = [Message (TS [0]) [1], WatermarkMessage (TS [0])],
                   right_stream = [WatermarkMessage (TS [0]), WatermarkMessage (TS [0])]\<rparr>,
              wm_at = WSent (TS [0]), offered_log = [(TS [0], [1]), (TS [0], [2])]\<rparr>"
  let ?c4 = "\<lparr>drv = \<lparr>release_data = False, pickled_messages = Map.empty,
                   left_stream = [Message (TS [0]) [1::nat], WatermarkMessage (TS [0])],
                   right_stream = [WatermarkMessage (TS [0]), WatermarkMessage (TS [0])]\<rparr>,
              wm_at = WIdle, offered_log = [(TS [0], [1]), (TS [0], [2])]\<rparr>"
  note release_in_flight_reach
  moreover have "lidar_thread_step raw_data ?c2 ?c3"
    by (rule callback_eqI [where pc = ?pc2]) (simp_all add: threads_eval_simps)
  ultimately have "lidar_reach raw_data ?c3" by (rule lidar_reach.step)
  moreover have "lidar_thread_step raw_data ?c3 ?c4"
    by (rule release_delete_eqI [where t = "TS [0]"]) (simp_all add: threads_eval_simps)
  ultimately have "lidar_reach raw_data ?c4" by (rule lidar_reach.step)
  then show ?thesis by (intro exI [of _ ?c4]) (simp add: delivered_or_held_def)
qed

text \<open>C17 (every cached payload can be released): in every reachable state of the
  interleaved threads in which the erdos thread has not stopped on an exception,
  a payload held in the cache for a non-top key can always be delivered: some
  continuation finishes the release in flight, if any, and then releases the
  key, after which the payload is on the left stream and the key is gone from
  the cache.\<close>

theorem release_progress:
  assumes "lidar_reach f c" and "\<forall>e. wm_at c \<noteq> WFailed e" and "wm_at c \<noteq> WSent k"
    and "\<not> is_top k" and "pickled_messages (drv c) k = Some d"
  shows "\<exists>c'. (lidar_thread_step f)\<^sup>*\<^sup>* c c' \<and> wm_at c' = WIdle
           \<and> pickled_messages (drv c') k = None \<and> Message k d \<in> set (left_stream (drv c'))"
proof (cases "wm_at c")
  case WIdle
  from release_key_steps [OF this assms(4,5)] show ?thesis by force
next
  case (WSent t)
  from finish_in_flight [OF assms(1) this] obtain c1 where c1: "lidar_thread_step f c c1"
    "wm_at c1 = WIdle" "drv c1 = (drv c)\<lparr>pickled_messages := (pickled_messages (drv c))(t := None)\<rparr>"
    by blast
  have "t \<noteq> k" using WSent assms(3) by auto
  with c1(3) assms(5) have "pickled_messages (drv c1) k = Some d" by simp
  from release_key_steps [OF c1(2) assms(4) this] obtain c' where
    "(lidar_thread_step f)\<^sup>*\<^sup>* c1 c'" "wm_at c' = WIdle" "pickled_messages (drv c') k = None"
    "left_stream (drv c') = left_stream (drv c1) @ [Message k d, WatermarkMessage k]" by blast
  with c1(1) show ?thesis by (intro exI [of _ c']) (auto intro: converse_rtranclp_into_rtranclp)
next
  case (WFailed e)
  with assms(2) show ?thesis by simp
qed

section \<open>Witnesses\<close>

theorem threads_exactly_once_witness:
  "emitted \<lparr>release_data = False, pickled_messages = [TS [0] \<mapsto> [1::nat]],
             left_stream = [Message (TS [0]) [1], WatermarkMessage (TS [0])],
             right_stream = [WatermarkMessage (TS [0])]\<rparr> (TS [0])
   + unsent \<lparr>drv = \<lparr>release_data = False, pickled_messages = [TS [0] \<mapsto> [1::nat]],
             left_stream = [Message (TS [0]) [1], WatermarkMessage (TS [0])],
             right_stream = [WatermarkMessage (TS [0])]\<rparr>,
      wm_at = WSent (TS [0]), offered_log = [(TS [0], [1])]\<rparr> (TS [0]) = 1"
  using threads_exactly_once [OF release_in_flight_reach, of "TS [0]"] by simp

theorem threads_linearizable_witness:
  "\<exists>c. lidar_reach raw_data c \<and> wm_at c = WIdle
     \<and> drv c = \<lparr>release_data = False, pickled_messages = Map.empty,
                left_stream = [Message (TS [100]) [7::nat], WatermarkMessage (TS [100])],
                right_stream = [WatermarkMessage (TS [100])]\<rparr>
     \<and> map fst (offered_log c) = [TS [100]]"
proof -
  have "lidar_run raw_data lidar_init
          [SimCallback \<lparr>pc_timestamp = 1/10, raw_data = [7::nat]\<rparr>, ReleaseWatermark (TS [100])]
        = Inr \<lparr>release_data = False, pickled_messages = Map.empty,
                left_stream = [Message (TS [100]) [7::nat], WatermarkMessage (TS [100])],
                right_stream = [WatermarkMessage (TS [100])]\<rparr>
        \<and> offered_keys
            [SimCallback \<lparr>pc_timestamp = 1/10, raw_data = [7::nat]\<rparr>, ReleaseWatermark (TS [100])]
          = [TS [100]]"
    by (simp add: lidar_eval_simps)
  then have "\<exists>es. lidar_run raw_data lidar_init es
        = Inr \<lparr>release_data = False, pickled_messages = Map.empty,
                left_stream = [Message (TS [100]) [7::nat], WatermarkMessage (TS [100])],
                right_stream = [WatermarkMessage (TS [100])]\<rparr>
        \<and> offered_keys es = [TS [100]]" by blast
  moreover have "distinct [TS [100]]" by simp
  ultimately show ?thesis using threads_linearizable [of "[TS [100]]"] by blast
qed

theorem sequential_newest_kept_witness:
  "lidar_run raw_data lidar_init
     ([SimCallback \<lparr>pc_timestamp = 1/10000, raw_data = [1::nat]\<rparr>]
      @ SimCallback \<lparr>pc_timestamp = 3/10000, raw_data = [2::nat]\<rparr> # [ReleaseWatermark (TS [0])])
   = Inr \<lparr>release_data = False, pickled_messages = Map.empty,
          left_stream = [Message (TS [0]) [2], WatermarkMessage (TS [0])],
          right_stream = [WatermarkMessage (TS [0]), WatermarkMessage (TS [0])]\<rparr>
   \<and> delivered_or_held
       \<lparr>release_data = False, pickled_messages = Map.empty,
        left_stream = [Message (TS [0]) [2::nat], WatermarkMessage (TS [0])],
        right_stream = [WatermarkMessage (TS [0]), WatermarkMessage (TS [0])]\<rparr> (TS [0]) [2]"
proof -
  have run: "lidar_run raw_data lidar_init
     ([SimCallback \<lparr>pc_timestamp = 1/10000, raw_data = [1::nat]\<rparr>]
      @ SimCallback \<lparr>pc_timestamp = 3/10000, raw_data = [2::nat]\<rparr> # [ReleaseWatermark (TS [0])])
   = Inr \<lparr>release_data = False, pickled_messages = Map.empty,
          left_stream = [Message (TS [0]) [2], WatermarkMessage (TS [0])],
          right_stream = [WatermarkMessage (TS [0]), WatermarkMessage (TS [0])]\<rparr>"
    by (simp add: threads_eval_simps)
  have "sim_timestamp (pc_timestamp \<lparr>pc_timestamp = 3/10000, raw_data = [2::nat]\<rparr>)
          \<notin> set (offered_keys [ReleaseWatermark (TS [0]) :: nat lidar_event])" by simp
  from sequential_newest_kept [OF run this] run show ?thesis
    by (simp add: threads_eval_simps)
qed

theorem release_progress_witness:
  "lidar_reach raw_data
     \<lparr>drv = \<lparr>release_data = False, pickled_messages = [TS [1] \<mapsto> [5::nat]],
             left_stream = [], right_stream = [WatermarkMessage (TS [1])]\<rparr>,
      wm_at = WIdle, offered_log = [(TS [1], [5])]\<rparr>
   \<and> (\<exists>c'. (lidar_thread_step raw_data)\<^sup>*\<^sup>*
              \<lparr>drv = \<lparr>release_data = False, pickled_messages = [TS [1] \<mapsto> [5::nat]],
                      left_stream = [], right_stream = [WatermarkMessage (TS [1])]\<rparr>,
               wm_at = WIdle, offered_log = [(TS [1], [5])]\<rparr> c'
         \<and> wm_at c' = WIdle \<and> pickled_messages (drv c') (TS [1]) = None
         \<and> Message (TS [1]) [5] \<in> set (left_stream (drv c')))"
proof -
  let ?c = "\<lparr>drv = \<lparr>release_data = False, pickled_messages = [TS [1] \<mapsto> [5::nat]],
                   left_stream = [], right_stream = [WatermarkMessage (TS [1])]\<rparr>,
             wm_at = WIdle, offered_log = [(TS [1], [5])]\<rparr>"
  have "lidar_thread_step raw_data threads_init ?c"
    by (rule callback_eqI [where pc = "\<lparr>pc_timestamp = 1/1000, raw_data = [5::nat]\<rparr>"])
      (simp_all add: threads_eval_simps game_time_def py_int_def)
  with lidar_reach.init have reach: "lidar_reach raw_data ?c" by (rule lidar_reach.step)
  have "\<forall>e. wm_at ?c \<noteq> WFailed e" "wm_at ?c \<noteq> WSent (TS [1])" "\<not> is_top (TS [1])"
    "pickled_messages (drv ?c) (TS [1]) = Some [5]" by simp_all
  from release_progress [OF reach this] reach show ?thesis by simp
qed

end
