(* ===== verification/Runner.thy ===== *)
theory Runner
  imports LidarDriver
begin

text \<open>
  The camera callbacks of \<open>src/detection_operator_runner.py\<close>. \<open>main\<close> builds
  five camera setups (lines 82--104), wires the ingest streams to the operator
  named by \<open>--test_operator\<close> (lines 125--193) and registers one callback per
  camera (lines 197--286). Each callback converts the image time to a game-time
  timestamp, and under the module lock \<open>_lock\<close> checks a setup's camera type
  and sends the decoded frame on an ingest stream; the left and right callbacks
  also send a watermark. The callbacks run one at a time (the lock), so a run is
  a sequence of (camera, image) events. The camera setup classes and
  \<open>create_left_right_camera_setups\<close> are pylot code outside the repository:
  only the name and the camera type they set are modelled. Frame decoding
  (\<open>CameraFrame.from_simulator_frame\<close> and the like) is modelled as tagging the
  image with the setup it is decoded with.
\<close>

section \<open>Camera setups\<close>

record camera_setup =
  cam_name :: string
  camera_type :: string

definition RGBCameraSetup :: "string \<Rightarrow> camera_setup" where
  "RGBCameraSetup name = \<lparr>cam_name = name, camera_type = ''sensor.camera.rgb''\<rparr>"

definition DepthCameraSetup :: "string \<Rightarrow> camera_setup" where
  "DepthCameraSetup name = \<lparr>cam_name = name, camera_type = ''sensor.camera.depth''\<rparr>"

definition SegmentedCameraSetup :: "string \<Rightarrow> camera_setup" where
  "SegmentedCameraSetup name =
     \<lparr>cam_name = name, camera_type = ''sensor.camera.semantic_segmentation''\<rparr>"

definition create_left_right_camera_setups :: "string \<Rightarrow> camera_setup \<times> camera_setup" where
  "create_left_right_camera_setups prefix =
     (RGBCameraSetup (prefix @ ''_left''), RGBCameraSetup (prefix @ ''_right''))"

record runner_setups =
  rgb_camera_setup :: camera_setup
  depth_camera_setup :: camera_setup
  seg_camera_setup :: camera_setup
  left_camera_setup :: camera_setup
  right_camera_setup :: camera_setup

text \<open>Lines 82--104.\<close>

definition main_setups :: runner_setups where
  "main_setups =
     (let (left, right) = create_left_right_camera_setups ''camera'' in
      \<lparr>rgb_camera_setup = RGBCameraSetup ''center_camera'',
       depth_camera_setup = DepthCameraSetup ''depth_center_camera'',
       seg_camera_setup = SegmentedCameraSetup ''seg_center_camera'',
       left_camera_setup = left, right_camera_setup = right\<rparr>)"

section \<open>Images, frames and ingest streams\<close>

record 'i simulator_image =
  image_timestamp :: rat
  image_data :: 'i

datatype 'i frame =
    CameraFrame 'i camera_setup
  | DepthFrame 'i camera_setup
  | SegmentedFrame 'i camera_setup

text \<open>The six ingest streams of lines 113--123, as the lists of messages sent.\<close>

record 'i ingest_streams =
  rgb_camera_ingest_stream :: "'i frame message list"
  depth_camera_ingest_stream :: "'i frame message list"
  seg_camera_ingest_stream :: "'i frame message list"
  left_camera_ingest_stream :: "'i frame message list"
  right_camera_ingest_stream :: "'i frame message list"
  ttd_ingest_stream :: "'i frame message list"

definition ingest_init :: "'i ingest_streams" where
  "ingest_init =
     \<lparr>rgb_camera_ingest_stream = [], depth_camera_ingest_stream = [], seg_camera_ingest_stream = [],
      left_camera_ingest_stream = [], right_camera_ingest_stream = [], ttd_ingest_stream = []\<rparr>"

datatype ingest = RgbIngest | DepthIngest | SegIngest | LeftIngest | RightIngest | TtdIngest

fun ingest_of :: "ingest \<Rightarrow> 'i ingest_streams \<Rightarrow> 'i frame message list" where
  "ingest_of RgbIngest st = rgb_camera_ingest_stream st"
| "ingest_of DepthIngest st = depth_camera_ingest_stream st"
| "ingest_of SegIngest st = seg_camera_ingest_stream st"
| "ingest_of LeftIngest st = left_camera_ingest_stream st"
| "ingest_of RightIngest st = right_camera_ingest_stream st"
| "ingest_of TtdIngest st = ttd_ingest_stream st"

section \<open>Callbacks\<close>

text \<open>\<open>process_rgb_images\<close>, lines 197--211: a frame, no watermark.\<close>

definition process_rgb_images ::
  "runner_setups \<Rightarrow> 'i simulator_image \<Rightarrow> 'i ingest_streams \<Rightarrow> 'i ingest_streams" where
  "process_rgb_images su img st =
     (let timestamp = sim_timestamp (image_timestamp img) in
      if camera_type (rgb_camera_setup su) = ''sensor.camera.rgb''
      then st\<lparr>rgb_camera_ingest_stream := rgb_camera_ingest_stream st
               @ [Message timestamp (CameraFrame (image_data img) (rgb_camera_setup su))]\<rparr>
      else st)"

text \<open>\<open>process_depth_images\<close>, lines 213--229.\<close>

definition process_depth_images ::
  "runner_setups \<Rightarrow> 'i simulator_image \<Rightarrow> 'i ingest_streams \<Rightarrow> 'i ingest_streams" where
  "process_depth_images su img st =
     (let timestamp = sim_timestamp (image_timestamp img) in
      if camera_type (depth_camera_setup su) = ''sensor.camera.depth''
      then st\<lparr>depth_camera_ingest_stream := depth_camera_ingest_stream st
               @ [Message timestamp (DepthFrame (image_data img) (depth_camera_setup su))]\<rparr>
      else st)"

text \<open>\<open>process_seg_images\<close>, lines 231--245: the test on line 240 reads the depth
  camera's setup.\<close>

definition process_seg_images ::
  "runner_setups \<Rightarrow> 'i simulator_image \<Rightarrow> 'i ingest_streams \<Rightarrow> 'i ingest_streams" where
  "process_seg_images su img st =
     (let timestamp = sim_timestamp (image_timestamp img) in
      if camera_type (depth_camera_setup su) = ''sensor.camera.semantic_segmentation''
      then st\<lparr>seg_camera_ingest_stream := seg_camera_ingest_stream st
               @ [Message timestamp (SegmentedFrame (image_data img) (seg_camera_setup su))]\<rparr>
      else st)"

text \<open>\<open>process_left_images\<close>, lines 247--262: the frame, then the watermark.\<close>

definition process_left_images ::
  "runner_setups \<Rightarrow> 'i simulator_image \<Rightarrow> 'i ingest_streams \<Rightarrow> 'i ingest_streams" where
  "process_left_images su img st =
     (let timestamp = sim_timestamp (image_timestamp img) in
      if camera_type (rgb_camera_setup su) = ''sensor.camera.rgb''
      then st\<lparr>left_camera_ingest_stream := left_camera_ingest_stream st
               @ [Message timestamp (CameraFrame (image_data img) (left_camera_setup su)),
                  WatermarkMessage timestamp]\<rparr>
      else st)"

text \<open>\<open>process_right_images\<close>, lines 264--279.\<close>

definition process_right_images ::
  "runner_setups \<Rightarrow> 'i simulator_image \<Rightarrow> 'i ingest_streams \<Rightarrow> 'i ingest_streams" where
  "process_right_images su img st =
     (let timestamp = sim_timestamp (image_timestamp img) in
      if camera_type (rgb_camera_setup su) = ''sensor.camera.rgb''
      then st\<lparr>right_camera_ingest_stream := right_camera_ingest_stream st
               @ [Message timestamp (CameraFrame (image_data img) (right_camera_setup su)),
                  WatermarkMessage timestamp]\<rparr>
      else st)"

text \<open>The registrations of lines 282--286.\<close>

datatype camera = RgbCamera | DepthCamera | SegCamera | LeftCamera | RightCamera

fun camera_callback ::
  "runner_setups \<Rightarrow> camera \<Rightarrow> 'i simulator_image \<Rightarrow> 'i ingest_streams \<Rightarrow> 'i ingest_streams" where
  "camera_callback su RgbCamera = process_rgb_images su"
| "camera_callback su DepthCamera = process_depth_images su"
| "camera_callback su SegCamera = process_seg_images su"
| "camera_callback su LeftCamera = process_left_images su"
| "camera_callback su RightCamera = process_right_images su"

fun runner_run ::
  "runner_setups \<Rightarrow> 'i ingest_streams \<Rightarrow> (camera \<times> 'i simulator_image) list \<Rightarrow> 'i ingest_streams" where
  "runner_run su st [] = st"
| "runner_run su st ((cam, img) # evs) = runner_run su (camera_callback su cam img st) evs"

text \<open>The images a camera delivers in a run, in order.\<close>

definition images_of :: "camera \<Rightarrow> (camera \<times> 'i simulator_image) list \<Rightarrow> 'i simulator_image list" where
  "images_of cam evs = map snd (filter (\<lambda>e. fst e = cam) evs)"

section \<open>Wiring\<close>

datatype operator_kind =
    DetectionOperator | TrafficLightDetOperator | EfficientDetOperator
  | LanenetDetectionOperator | CannyEdgeLaneDetectionOperator | DepthEstimationOperator

text \<open>Lines 125--193: the operator each value of \<open>--test_operator\<close> connects, with
  its input ingest streams in order; six independent \<open>if\<close> blocks.\<close>

definition connected_operators :: "string \<Rightarrow> (operator_kind \<times> ingest list) list" where
  "connected_operators detector =
     (if detector = ''detection_operator'' then [(DetectionOperator, [RgbIngest, TtdIngest])] else [])
     @ (if detector = ''traffic_light'' then [(TrafficLightDetOperator, [RgbIngest, TtdIngest])] else [])
     @ (if detector = ''efficient_det'' then [(EfficientDetOperator, [RgbIngest, TtdIngest])] else [])
     @ (if detector = ''lanenet'' then [(LanenetDetectionOperator, [RgbIngest])] else [])
     @ (if detector = ''canny_lane'' then [(CannyEdgeLaneDetectionOperator, [RgbIngest])] else [])
     @ (if detector = ''depth_estimation''
        then [(DepthEstimationOperator, [LeftIngest, RightIngest])] else [])"

text \<open>The watermark timestamps a stream carries, in order.\<close>

fun watermarks_of :: "'d message list \<Rightarrow> timestamp list" where
  "watermarks_of [] = []"
| "watermarks_of (WatermarkMessage t # ms) = t # watermarks_of ms"
| "watermarks_of (Message _ _ # ms) = watermarks_of ms"

section \<open>Stream contents\<close>

text \<open>The ingest stream each camera's callback writes, and the frame it decodes
  from an image (\<open>CameraFrame.from_simulator_frame\<close> and the like, lines 207--208,
  224--225, 241--242, 257--258, 274--275) with the setup it passes.\<close>

fun camera_ingest :: "camera \<Rightarrow> ingest" where
  "camera_ingest RgbCamera = RgbIngest"
| "camera_ingest DepthCamera = DepthIngest"
| "camera_ingest SegCamera = SegIngest"
| "camera_ingest LeftCamera = LeftIngest"
| "camera_ingest RightCamera = RightIngest"

fun decoded_frame :: "camera \<Rightarrow> runner_setups \<Rightarrow> 'i simulator_image \<Rightarrow> 'i frame" where
  "decoded_frame RgbCamera su img = CameraFrame (image_data img) (rgb_camera_setup su)"
| "decoded_frame DepthCamera su img = DepthFrame (image_data img) (depth_camera_setup su)"
| "decoded_frame SegCamera su img = SegmentedFrame (image_data img) (seg_camera_setup su)"
| "decoded_frame LeftCamera su img = CameraFrame (image_data img) (left_camera_setup su)"
| "decoded_frame RightCamera su img = CameraFrame (image_data img) (right_camera_setup su)"

fun frame_msg_ok ::
  "camera \<Rightarrow> runner_setups \<Rightarrow> 'i simulator_image list \<Rightarrow> 'i frame message \<Rightarrow> bool" where
  "frame_msg_ok c su imgs (Message t f) =
     ((t, f) \<in> set (map (\<lambda>img. (sim_timestamp (image_timestamp img), decoded_frame c su img)) imgs))"
| "frame_msg_ok c su imgs (WatermarkMessage t) = True"

definition all_cameras :: "camera list" where
  "all_cameras = [RgbCamera, DepthCamera, SegCamera, LeftCamera, RightCamera]"

section \<open>Lemmas\<close>

lemmas callback_defs = process_rgb_images_def process_depth_images_def process_seg_images_def
  process_left_images_def process_right_images_def

lemma main_setups_types [simp]:
  "camera_type (rgb_camera_setup main_setups) = ''sensor.camera.rgb''"
  "camera_type (depth_camera_setup main_setups) = ''sensor.camera.depth''"
  "camera_type (seg_camera_setup main_setups) = ''sensor.camera.semantic_segmentation''"
  "camera_type (left_camera_setup main_setups) = ''sensor.camera.rgb''"
  "camera_type (right_camera_setup main_setups) = ''sensor.camera.rgb''"
  by (simp_all add: main_setups_def create_left_right_camera_setups_def RGBCameraSetup_def
      DepthCameraSetup_def SegmentedCameraSetup_def)

text \<open>What one callback adds to each stream.\<close>

lemma callback_seg:
  "seg_camera_ingest_stream (camera_callback su cam img st) =
     seg_camera_ingest_stream st
     @ (if cam = SegCamera
           \<and> camera_type (depth_camera_setup su) = ''sensor.camera.semantic_segmentation''
        then [Message (sim_timestamp (image_timestamp img))
                (SegmentedFrame (image_data img) (seg_camera_setup su))]
        else [])"
  by (cases cam) (simp_all add: callback_defs Let_def)

lemma callback_unwatermarked:
  "i \<notin> {LeftIngest, RightIngest} \<Longrightarrow>
   watermarks_of (ingest_of i (camera_callback su cam img st)) = watermarks_of (ingest_of i st)"
proof -
  have wm: "watermarks_of (ms @ [Message t d]) = watermarks_of ms" for ms :: "'d message list" and t d
    by (induction ms rule: watermarks_of.induct) simp_all
  assume "i \<notin> {LeftIngest, RightIngest}"
  then show ?thesis
    by (cases i; cases cam) (simp_all add: callback_defs Let_def wm)
qed

lemma watermarks_of_append [simp]:
  "watermarks_of (ms @ ms') = watermarks_of ms @ watermarks_of ms'"
  by (induction ms rule: watermarks_of.induct) simp_all

lemma callback_left:
  "left_camera_ingest_stream (camera_callback su cam img st) =
     left_camera_ingest_stream st
     @ (if cam = LeftCamera \<and> camera_type (rgb_camera_setup su) = ''sensor.camera.rgb''
        then [Message (sim_timestamp (image_timestamp img))
                (CameraFrame (image_data img) (left_camera_setup su)),
              WatermarkMessage (sim_timestamp (image_timestamp img))]
        else [])"
  by (cases cam) (simp_all add: callback_defs Let_def)

lemma callback_right:
  "right_camera_ingest_stream (camera_callback su cam img st) =
     right_camera_ingest_stream st
     @ (if cam = RightCamera \<and> camera_type (rgb_camera_setup su) = ''sensor.camera.rgb''
        then [Message (sim_timestamp (image_timestamp img))
                (CameraFrame (image_data img) (right_camera_setup su)),
              WatermarkMessage (sim_timestamp (image_timestamp img))]
        else [])"
  by (cases cam) (simp_all add: callback_defs Let_def)

lemma runner_run_unwatermarked:
  "i \<notin> {LeftIngest, RightIngest} \<Longrightarrow>
   watermarks_of (ingest_of i (runner_run su st evs)) = watermarks_of (ingest_of i st)"
  by (induction su st evs rule: runner_run.induct) (simp_all add: callback_unwatermarked)

text \<open>The left stream's watermarks are the game times of the left images.\<close>

lemma runner_run_left_watermarks:
  "watermarks_of (left_camera_ingest_stream (runner_run su st evs)) =
     watermarks_of (left_camera_ingest_stream st)
     @ (if camera_type (rgb_camera_setup su) = ''sensor.camera.rgb''
        then map (\<lambda>img. sim_timestamp (image_timestamp img)) (images_of LeftCamera evs)
        else [])"
  by (induction su st evs rule: runner_run.induct) (auto simp: callback_left images_of_def)

lemma sorted_map_mono:
  "sorted (map g xs) \<Longrightarrow> (\<And>a b. a \<le> b \<Longrightarrow> f a \<le> f b) \<Longrightarrow> sorted (map (\<lambda>x. f (g x)) xs)"
  by (induction xs) (auto simp: sorted_append)

lemma sim_timestamp_mono: "t \<le> t' \<Longrightarrow> sim_timestamp t \<le> sim_timestamp t'"
  using game_time_mono [of t t'] by (auto simp: sim_timestamp_def le_less)

lemma runner_run_well_paired:
  "well_paired (left_camera_ingest_stream st) \<Longrightarrow> well_paired (right_camera_ingest_stream st) \<Longrightarrow>
   well_paired (left_camera_ingest_stream (runner_run su st evs))
   \<and> well_paired (right_camera_ingest_stream (runner_run su st evs))"
  by (induction su st evs rule: runner_run.induct) (simp_all add: callback_left callback_right)

lemma callback_ingest:
  "set (ingest_of (camera_ingest c) (camera_callback su cam img st))
     \<subseteq> set (ingest_of (camera_ingest c) st)
       \<union> (if cam = c then {Message (sim_timestamp (image_timestamp img)) (decoded_frame c su img),
                          WatermarkMessage (sim_timestamp (image_timestamp img))} else {})"
  by (cases cam; cases c) (auto simp: callback_defs Let_def)

lemma callback_ttd [simp]: "ttd_ingest_stream (camera_callback su cam img st) = ttd_ingest_stream st"
  by (cases cam) (simp_all add: callback_defs Let_def)

lemma runner_run_ttd: "ttd_ingest_stream (runner_run su st evs) = ttd_ingest_stream st"
  by (induction su st evs rule: runner_run.induct) simp_all

lemma runner_run_ingest:
  "m \<in> set (ingest_of (camera_ingest c) (runner_run su st evs)) \<Longrightarrow>
   m \<in> set (ingest_of (camera_ingest c) st) \<or> frame_msg_ok c su (images_of c evs) m"
proof (induction su st evs rule: runner_run.induct)
  case (1 su st)
  then show ?case by simp
next
  case (2 su st cam img evs)
  from "2.IH" "2.prems" have "m \<in> set (ingest_of (camera_ingest c) (camera_callback su cam img st))
      \<or> frame_msg_ok c su (images_of c evs) m" by simp
  then show ?case
  proof
    assume "m \<in> set (ingest_of (camera_ingest c) (camera_callback su cam img st))"
    with callback_ingest [of c su cam img st] show ?thesis
      by (cases m) (auto simp: images_of_def split: if_splits)
  next
    assume "frame_msg_ok c su (images_of c evs) m"
    then show ?thesis by (cases m) (auto simp: images_of_def)
  qed
qed

lemmas runner_eval_simps = callback_defs ingest_init_def images_of_def sim_timestamp_def
  game_time_def py_int_def Let_def

section \<open>Properties\<close>

text \<open>C32 (segmentation frames are never sent): with the setups \<open>main\<close> builds, the
  segmentation callback never sends anything, whatever images arrive: line 240
  tests the depth camera's type against the segmentation type.\<close>

theorem seg_stream_never_sent:
  "seg_camera_ingest_stream (runner_run main_setups st evs) = seg_camera_ingest_stream st"
  by (induction main_setups st evs rule: runner_run.induct) (simp_all add: callback_seg)

text \<open>C33 (detectors get no watermark): every operator \<open>--test_operator\<close> can connect,
  except the depth estimator, has an input ingest stream on which no run of the
  camera callbacks ever sends a watermark (the RGB callback sends frames only and
  nothing is sent on the ttd stream), so the operator never sees its inputs
  complete a timestamp.\<close>

theorem detectors_lack_watermarks:
  assumes "(op, ins) \<in> set (connected_operators d)" and "op \<noteq> DepthEstimationOperator"
  shows "\<exists>i \<in> set ins. watermarks_of (ingest_of i (runner_run su ingest_init evs)) = []"
proof -
  from assms have "RgbIngest \<in> set ins"
    by (auto simp: connected_operators_def split: if_splits)
  moreover have "watermarks_of (ingest_of RgbIngest (runner_run su ingest_init evs)) = []"
    using runner_run_unwatermarked [of RgbIngest su ingest_init evs]
    by (simp add: ingest_init_def)
  ultimately show ?thesis by blast
qed

text \<open>C34 (stereo streams are paired): on every run from the empty streams, the left
  and right ingest streams are sequences of a frame followed by the watermark of
  its timestamp.\<close>

theorem stereo_well_paired:
  "well_paired (left_camera_ingest_stream (runner_run su ingest_init evs))
   \<and> well_paired (right_camera_ingest_stream (runner_run su ingest_init evs))"
  by (rule runner_run_well_paired) (simp_all add: ingest_init_def)

text \<open>C35 (stereo watermarks in capture order): if the left camera delivers its images
  in non-decreasing simulator time, the watermarks on the left ingest stream are
  non-decreasing (truncation to milliseconds is monotone).\<close>

theorem stereo_watermarks_sorted:
  assumes "sorted (map image_timestamp (images_of LeftCamera evs))"
  shows "sorted (watermarks_of (left_camera_ingest_stream (runner_run su ingest_init evs)))"
proof -
  have "sorted (map (\<lambda>img. sim_timestamp (image_timestamp img)) (images_of LeftCamera evs))"
    using assms sim_timestamp_mono by (rule sorted_map_mono)
  then show ?thesis by (simp add: runner_run_left_watermarks ingest_init_def)
qed

text \<open>C8 (each stream carries its own camera's frames): on every run from the
  empty streams, with any setups, every data message on a camera's ingest stream
  is the frame that camera's callback decoded from one of that camera's images,
  with the setup and the game time of that image, and nothing is ever sent on
  the ttd stream.\<close>

theorem ingest_streams_typed:
  "list_all (\<lambda>c. list_all (frame_msg_ok c su (images_of c evs))
                    (ingest_of (camera_ingest c) (runner_run su ingest_init evs))) all_cameras
   \<and> ttd_ingest_stream (runner_run su ingest_init evs) = []"
proof -
  have "list_all (frame_msg_ok c su (images_of c evs))
          (ingest_of (camera_ingest c) (runner_run su ingest_init evs))" for c
    using runner_run_ingest [of _ c su ingest_init evs]
    by (cases c) (auto simp: list_all_iff ingest_init_def)
  then show ?thesis by (simp add: all_cameras_def runner_run_ttd ingest_init_def)
qed

section \<open>Witnesses\<close>

theorem detectors_lack_watermarks_witness:
  "list_ex (\<lambda>i. watermarks_of (ingest_of i (runner_run main_setups ingest_init
      [(RgbCamera, \<lparr>image_timestamp = 1/10, image_data = (1::nat)\<rparr>),
       (LeftCamera, \<lparr>image_timestamp = 1/10, image_data = 2\<rparr>)])) = [])
     [RgbIngest, TtdIngest]"
proof -
  have "(DetectionOperator, [RgbIngest, TtdIngest]) \<in> set (connected_operators ''detection_operator'')"
    by (simp add: connected_operators_def)
  from detectors_lack_watermarks [OF this, where su = main_setups
      and evs = "[(RgbCamera, \<lparr>image_timestamp = 1/10, image_data = (1::nat)\<rparr>),
                  (LeftCamera, \<lparr>image_timestamp = 1/10, image_data = 2\<rparr>)]"]
  show ?thesis by (auto simp: list_ex_iff)
qed

theorem stereo_watermarks_sorted_witness:
  "watermarks_of (left_camera_ingest_stream (runner_run main_setups ingest_init
      [(LeftCamera, \<lparr>image_timestamp = 1/10, image_data = (1::nat)\<rparr>),
       (RightCamera, \<lparr>image_timestamp = 1/10, image_data = 2\<rparr>),
       (LeftCamera, \<lparr>image_timestamp = 2/10, image_data = 3\<rparr>)]))
     = [TS [100], TS [200]]
   \<and> sorted [TS [100], TS [200]]"
proof -
  have w: "watermarks_of (left_camera_ingest_stream (runner_run main_setups ingest_init
      [(LeftCamera, \<lparr>image_timestamp = 1/10, image_data = (1::nat)\<rparr>),
       (RightCamera, \<lparr>image_timestamp = 1/10, image_data = 2\<rparr>),
       (LeftCamera, \<lparr>image_timestamp = 2/10, image_data = 3\<rparr>)]))
     = [TS [100], TS [200]]"
    by (simp add: runner_eval_simps)
  have "sorted (map image_timestamp (images_of LeftCamera
      [(LeftCamera, \<lparr>image_timestamp = 1/10, image_data = (1::nat)\<rparr>),
       (RightCamera, \<lparr>image_timestamp = 1/10, image_data = 2\<rparr>),
       (LeftCamera, \<lparr>image_timestamp = 2/10, image_data = 3\<rparr>)]))"
    by (simp add: images_of_def)
  from stereo_watermarks_sorted [OF this, where su = main_setups] w show ?thesis by simp
qed

end
