(* ===== verification/RunnerMain.thy ===== *)
theory RunnerMain
  imports Runner
begin

text \<open>
  The actor lifecycle of \<open>main\<close> in \<open>src/detection_operator_runner.py\<close>
  (lines 57--300). The \<open>try\<close> block is a fixed sequence of simulator calls
  (\<open>main_calls\<close>): connect (line 61), get the world (62--63), spawn the ego
  vehicle, switch on its autopilot,
  spawn the five cameras through \<open>setup_camera\<close> (lines 44--54), start the
  dataflow (line 195), register the five callbacks (282--286), spawn the
  traffic (289) and sleep (292). Which
  calls raise is a parameter \<open>fails\<close>; a raising call stops the block with the
  simulator's \<open>RuntimeError\<close>. The \<open>finally\<close> block (lines 294--300) destroys the
  three centre cameras and then the actors of \<open>actor_list\<close>; a camera variable
  that was never assigned raises \<open>UnboundLocalError\<close>, which stops the block
  and replaces the exception of the \<open>try\<close> block. The state records the
  actors spawned and destroyed, the local variables assigned and the
  callbacks registered. Destroy calls are taken not to raise.
\<close>

section \<open>State and calls\<close>

datatype actor = EgoVehicle | CameraActor camera | TrafficVehicles

datatype main_error = RuntimeError | UnboundLocalError

record main_state =
  client_bound :: bool
  actor_list :: "actor list"
  bound_cameras :: "camera list"
  listening :: "camera list"
  spawned :: "actor list"
  destroyed :: "actor list"

definition main_init :: main_state where
  "main_init = \<lparr>client_bound = False, actor_list = [], bound_cameras = [], listening = [],
                spawned = [], destroyed = []\<rparr>"

datatype main_call =
    ConnectClient | GetWorld | SpawnEgo | SetAutopilot | SpawnCamera camera | RunAsync
  | Listen camera | SpawnTraffic | Sleep

text \<open>The effect of a call that returns. \<open>SpawnEgo\<close> is lines 65--73 (the
  vehicle is appended to \<open>actor_list\<close>), \<open>SpawnCamera\<close> one call of
  \<open>setup_camera\<close> assigning the camera variable (lines 106--111),
  \<open>SpawnTraffic\<close> is \<open>spawn_vehicles\<close> (line 289), whose vehicles \<open>main\<close> does not
  keep.\<close>

fun main_call_effect :: "main_call \<Rightarrow> main_state \<Rightarrow> main_state" where
  "main_call_effect ConnectClient s = s\<lparr>client_bound := True\<rparr>"
| "main_call_effect SpawnEgo s =
     s\<lparr>spawned := spawned s @ [EgoVehicle], actor_list := actor_list s @ [EgoVehicle]\<rparr>"
| "main_call_effect (SpawnCamera c) s =
     s\<lparr>spawned := spawned s @ [CameraActor c], bound_cameras := bound_cameras s @ [c]\<rparr>"
| "main_call_effect (Listen c) s = s\<lparr>listening := listening s @ [c]\<rparr>"
| "main_call_effect SpawnTraffic s = s\<lparr>spawned := spawned s @ [TrafficVehicles]\<rparr>"
| "main_call_effect GetWorld s = s"
| "main_call_effect SetAutopilot s = s"
| "main_call_effect RunAsync s = s"
| "main_call_effect Sleep s = s"

definition main_calls :: "main_call list" where
  "main_calls =
     [ConnectClient, GetWorld, SpawnEgo, SetAutopilot,
      SpawnCamera RgbCamera, SpawnCamera DepthCamera, SpawnCamera SegCamera,
      SpawnCamera LeftCamera, SpawnCamera RightCamera, RunAsync,
      Listen RgbCamera, Listen DepthCamera, Listen SegCamera, Listen LeftCamera, Listen RightCamera,
      SpawnTraffic, Sleep]"

definition call_step :: "(main_call \<Rightarrow> bool) \<Rightarrow> main_call \<Rightarrow> main_state \<Rightarrow> main_error + main_state" where
  "call_step fails c s = (if fails c then Inl RuntimeError else Inr (main_call_effect c s))"

section \<open>The finally block\<close>

datatype finally_step = DestroyCamera camera | DestroyActorList

fun finally_effect :: "finally_step \<Rightarrow> main_state \<Rightarrow> main_error + main_state" where
  "finally_effect (DestroyCamera c) s =
     (if c \<in> set (bound_cameras s) then Inr (s\<lparr>destroyed := destroyed s @ [CameraActor c]\<rparr>)
      else Inl UnboundLocalError)"
| "finally_effect DestroyActorList s =
     (if client_bound s then Inr (s\<lparr>destroyed := destroyed s @ actor_list s\<rparr>)
      else Inl UnboundLocalError)"

definition finally_steps :: "finally_step list" where
  "finally_steps = [DestroyCamera RgbCamera, DestroyCamera DepthCamera, DestroyCamera SegCamera,
                    DestroyActorList]"

text \<open>Statements run in order until one raises; the state is kept as the
  raise leaves it.\<close>

fun run_until_raise :: "('a \<Rightarrow> 's \<Rightarrow> main_error + 's) \<Rightarrow> 'a list \<Rightarrow> 's \<Rightarrow> main_error option \<times> 's" where
  "run_until_raise f [] s = (None, s)"
| "run_until_raise f (x # xs) s =
     (case f x s of Inl e \<Rightarrow> (Some e, s) | Inr s' \<Rightarrow> run_until_raise f xs s')"

text \<open>\<open>main\<close>: the exception it ends with (an exception of \<open>finally\<close> replaces
  the one of \<open>try\<close>) and the final state.\<close>

definition main_run :: "(main_call \<Rightarrow> bool) \<Rightarrow> main_error option \<times> main_state" where
  "main_run fails =
     (let (err, s) = run_until_raise (call_step fails) main_calls main_init;
          (ferr, s') = run_until_raise finally_effect finally_steps s
      in (case ferr of Some e \<Rightarrow> Some e | None \<Rightarrow> err, s'))"

section \<open>Lemmas\<close>

lemma run_until_raise_calls:
  "run_until_raise (call_step fails) cs s
     = (if list_ex fails cs then Some RuntimeError else None,
        fold main_call_effect (takeWhile (\<lambda>c. \<not> fails c) cs) s)"
  by (induction cs arbitrary: s) (auto simp: call_step_def)

text \<open>What \<open>main\<close> does when the first \<open>n\<close> calls return and the next one, if
  any, raises.\<close>

definition main_outcome :: "nat \<Rightarrow> main_error option \<times> main_state" where
  "main_outcome n =
     (let (ferr, s') = run_until_raise finally_effect finally_steps
                         (fold main_call_effect (take n main_calls) main_init)
      in (case ferr of Some e \<Rightarrow> Some e | None \<Rightarrow> if n < length main_calls then Some RuntimeError else None, s'))"

lemma list_ex_takeWhile: "list_ex P xs \<longleftrightarrow> length (takeWhile (\<lambda>x. \<not> P x) xs) < length xs"
  by (induction xs) auto

lemma main_run_outcome:
  "main_run fails = main_outcome (length (takeWhile (\<lambda>c. \<not> fails c) main_calls))"
  by (simp add: main_run_def main_outcome_def run_until_raise_calls list_ex_takeWhile
      takeWhile_eq_take [symmetric] split: prod.splits)

lemma first_failure_le: "length (takeWhile P main_calls) \<le> 17"
  using length_takeWhile_le [of P main_calls] by (simp add: main_calls_def)

lemma takeWhile_True: "takeWhile (\<lambda>_. True) xs = xs"
  by (induction xs) auto

lemma list_ex_take_takeWhile:
  "list_ex P (take k xs) \<longleftrightarrow> length (takeWhile (\<lambda>x. \<not> P x) xs) < min k (length xs)"
  by (induction xs arbitrary: k) (auto simp: take_Cons split: nat.splits)

lemma main_calls_prefix7:
  "list_ex fails (take 7 main_calls) \<longleftrightarrow> length (takeWhile (\<lambda>c. \<not> fails c) main_calls) < 7"
  by (simp add: list_ex_take_takeWhile main_calls_def)

text \<open>The eighteen ways \<open>main\<close> can end, evaluated.\<close>

lemma main_outcome_cases:
  "list_all (\<lambda>n.
     (fst (main_outcome n) = Some UnboundLocalError \<longleftrightarrow> n < 7)
     \<and> (fst (main_outcome n) = None \<longleftrightarrow> n = 17)
     \<and> (EgoVehicle \<in> set (destroyed (snd (main_outcome n))) \<longleftrightarrow> 7 \<le> n)
     \<and> set (destroyed (snd (main_outcome n)))
         \<subseteq> {CameraActor RgbCamera, CameraActor DepthCamera, CameraActor SegCamera, EgoVehicle}
     \<and> distinct (destroyed (snd (main_outcome n)))
     \<and> set (destroyed (snd (main_outcome n))) \<subseteq> set (spawned (snd (main_outcome n)))) [0..<18]"
  by (simp add: upt_rec main_outcome_def main_calls_def finally_steps_def main_init_def)

lemma main_run_cases:
  obtains n where "n \<le> 17" and "main_run fails = main_outcome n"
    and "list_ex fails (take 7 main_calls) \<longleftrightarrow> n < 7"
  using main_run_outcome first_failure_le main_calls_prefix7 by blast

lemma main_outcome_facts:
  assumes "n \<le> 17"
  shows "(fst (main_outcome n) = Some UnboundLocalError \<longleftrightarrow> n < 7)
     \<and> (fst (main_outcome n) = None \<longleftrightarrow> n = 17)
     \<and> (EgoVehicle \<in> set (destroyed (snd (main_outcome n))) \<longleftrightarrow> 7 \<le> n)
     \<and> set (destroyed (snd (main_outcome n)))
         \<subseteq> {CameraActor RgbCamera, CameraActor DepthCamera, CameraActor SegCamera, EgoVehicle}
     \<and> distinct (destroyed (snd (main_outcome n)))
     \<and> set (destroyed (snd (main_outcome n))) \<subseteq> set (spawned (snd (main_outcome n)))"
proof -
  from assms have "n \<in> set [0..<18]" by auto
  with main_outcome_cases show ?thesis by (simp add: list_all_iff)
qed

section \<open>Properties\<close>

text \<open>C12 (main leaks the stereo cameras and the traffic): whatever simulator
  call raises, the \<open>finally\<close> block never destroys the left and right cameras
  nor the vehicles \<open>spawn_vehicles\<close> created; on the run where nothing raises
  \<open>main\<close> returns normally after spawning all of them.\<close>

theorem main_leaks_stereo_and_traffic:
  "CameraActor LeftCamera \<notin> set (destroyed (snd (main_run fails)))
   \<and> CameraActor RightCamera \<notin> set (destroyed (snd (main_run fails)))
   \<and> TrafficVehicles \<notin> set (destroyed (snd (main_run fails)))
   \<and> fst (main_run (\<lambda>_. False)) = None
   \<and> {CameraActor LeftCamera, CameraActor RightCamera, TrafficVehicles}
       \<subseteq> set (spawned (snd (main_run (\<lambda>_. False))))"
proof -
  obtain n where "n \<le> 17" "main_run fails = main_outcome n" by (rule main_run_cases)
  with main_outcome_facts [of n] have "set (destroyed (snd (main_run fails)))
      \<subseteq> {CameraActor RgbCamera, CameraActor DepthCamera, CameraActor SegCamera, EgoVehicle}"
    by simp
  moreover have "main_run (\<lambda>_. False) = main_outcome (length main_calls)"
    by (simp add: main_run_outcome takeWhile_True)
  moreover have "fst (main_outcome (length main_calls)) = None
      \<and> {CameraActor LeftCamera, CameraActor RightCamera, TrafficVehicles}
          \<subseteq> set (spawned (snd (main_outcome (length main_calls))))"
    by (simp add: main_outcome_def main_calls_def finally_steps_def main_init_def)
  ultimately show ?thesis by auto
qed

text \<open>C27 (an early failure is masked and leaks the ego vehicle): \<open>main\<close> ends with
  \<open>UnboundLocalError\<close> exactly when one of the first seven calls (connect, world,
  ego vehicle, autopilot, the three centre cameras) raises, and exactly then the ego
  vehicle is not destroyed.\<close>

theorem main_early_failure_masked:
  "(fst (main_run fails) = Some UnboundLocalError \<longleftrightarrow> list_ex fails (take 7 main_calls))
   \<and> (EgoVehicle \<in> set (destroyed (snd (main_run fails))) \<longleftrightarrow> \<not> list_ex fails (take 7 main_calls))"
proof -
  obtain n where "n \<le> 17" "main_run fails = main_outcome n"
    "list_ex fails (take 7 main_calls) \<longleftrightarrow> n < 7" by (rule main_run_cases)
  with main_outcome_facts [of n] show ?thesis by auto
qed

text \<open>C9 (no actor is destroyed twice or before it is spawned): whatever simulator
  call raises, every actor the \<open>finally\<close> block destroys was spawned, and none is
  destroyed twice.\<close>

theorem main_destroys_spawned_once:
  "distinct (destroyed (snd (main_run fails)))
   \<and> set (destroyed (snd (main_run fails))) \<subseteq> set (spawned (snd (main_run fails)))"
proof -
  obtain n where "n \<le> 17" "main_run fails = main_outcome n" by (rule main_run_cases)
  with main_outcome_facts [of n] show ?thesis by simp
qed

end
