(* ===== verification/PrecisionRecall.thy ===== *)
theory PrecisionRecall
  imports Prelude
begin

text \<open>
  The precision/recall primitive \<open>get_precision_recall_at_iou(bboxes,
  ground_bboxes, iou)\<close> that the detection-decay operator calls
  (\<open>pylot.perception.detection.utils\<close>, not among the repository's sources,
  so modelled from the spec, section 4.4): greedy one-to-one matching, each box of
  the first list takes the first still unmatched box of the second list whose
  overlap reaches the threshold; precision is the number of matches over the
  size of the first list, recall over the size of the second, 0 for an empty
  list. The overlap function (IoU of two bounding boxes) is a parameter.
\<close>

fun take_match :: "('e \<Rightarrow> 'e \<Rightarrow> rat) \<Rightarrow> rat \<Rightarrow> 'e \<Rightarrow> 'e list \<Rightarrow> 'e list option" where
  "take_match ov th x [] = None"
| "take_match ov th x (y # ys) =
     (if th \<le> ov x y then Some ys else map_option (Cons y) (take_match ov th x ys))"

fun true_positives :: "('e \<Rightarrow> 'e \<Rightarrow> rat) \<Rightarrow> rat \<Rightarrow> 'e list \<Rightarrow> 'e list \<Rightarrow> nat" where
  "true_positives ov th [] gs = 0"
| "true_positives ov th (b # bs) gs =
     (case take_match ov th b gs of
        None \<Rightarrow> true_positives ov th bs gs
      | Some gs' \<Rightarrow> Suc (true_positives ov th bs gs'))"

definition ratio :: "nat \<Rightarrow> nat \<Rightarrow> rat" where
  "ratio a n = (if n = 0 then 0 else of_nat a / of_nat n)"

definition get_precision_recall_at_iou ::
  "('e \<Rightarrow> 'e \<Rightarrow> rat) \<Rightarrow> 'e list \<Rightarrow> 'e list \<Rightarrow> rat \<Rightarrow> rat \<times> rat" where
  "get_precision_recall_at_iou ov bboxes ground_bboxes iou =
     (let tp = true_positives ov iou bboxes ground_bboxes
      in (ratio tp (length bboxes), ratio tp (length ground_bboxes)))"

section \<open>Matching\<close>

lemma take_match_length:
  "take_match ov th x ys = Some ys' \<Longrightarrow> Suc (length ys') = length ys"
proof (induction ys arbitrary: ys')
  case Nil
  then show ?case by simp
next
  case (Cons y ys)
  then show ?case by (cases "th \<le> ov x y") auto
qed

lemma true_positives_le_first: "true_positives ov th bs gs \<le> length bs"
  by (induction bs arbitrary: gs) (simp_all add: le_SucI split: option.splits)

lemma true_positives_le_second: "true_positives ov th bs gs \<le> length gs"
proof (induction bs arbitrary: gs)
  case Nil
  then show ?case by simp
next
  case (Cons b bs)
  show ?case
  proof (cases "take_match ov th b gs")
    case None
    with Cons.IH show ?thesis by simp
  next
    case (Some gs')
    then have "Suc (length gs') = length gs" by (rule take_match_length)
    with Some Cons.IH [of gs'] show ?thesis by simp
  qed
qed

lemma ratio_bounds [simp]: "a \<le> n \<Longrightarrow> 0 \<le> ratio a n \<and> ratio a n \<le> 1"
  by (simp add: ratio_def)

text \<open>Where the overlap reaches the threshold exactly between equal boxes, a box
  matches a copy of itself and nothing else.\<close>

lemma take_match_exact:
  assumes "\<forall>y \<in> set ys. th \<le> ov x y \<longleftrightarrow> x = y"
  shows "take_match ov th x ys = (if x \<in> set ys then Some (remove1 x ys) else None)"
  using assms by (induction ys) auto

lemma true_positives_exact:
  assumes "\<forall>a \<in> set bs. \<forall>b \<in> set gs. th \<le> ov a b \<longleftrightarrow> a = b"
    and "mset bs \<subseteq># mset gs"
  shows "true_positives ov th bs gs = length bs"
  using assms
proof (induction bs arbitrary: gs)
  case Nil
  then show ?case by simp
next
  case (Cons b bs)
  then have b_in: "b \<in> set gs" by (auto dest: mset_subset_eqD)
  have tm: "take_match ov th b gs = Some (remove1 b gs)"
    using take_match_exact [of gs th ov b] Cons.prems(1) b_in by simp
  have "mset bs \<subseteq># mset (remove1 b gs)"
    using Cons.prems(2) b_in by (simp add: insert_subset_eq_iff)
  moreover have "\<forall>a \<in> set bs. \<forall>c \<in> set (remove1 b gs). th \<le> ov a c \<longleftrightarrow> a = c"
    using Cons.prems(1) by (auto dest: set_remove1_subset [THEN subsetD])
  ultimately have "true_positives ov th bs (remove1 b gs) = length bs"
    using Cons.IH by blast
  with tm show ?case by simp
qed

section \<open>Precision and recall\<close>

lemma precision_recall_bounds:
  "0 \<le> fst (get_precision_recall_at_iou ov bs gs iou)
   \<and> fst (get_precision_recall_at_iou ov bs gs iou) \<le> 1
   \<and> 0 \<le> snd (get_precision_recall_at_iou ov bs gs iou)
   \<and> snd (get_precision_recall_at_iou ov bs gs iou) \<le> 1"
  by (simp add: get_precision_recall_at_iou_def Let_def
      true_positives_le_first true_positives_le_second)

lemma precision_empty_ground:
  "fst (get_precision_recall_at_iou ov bs [] iou) = 0"
  using true_positives_le_second [of ov iou bs "[]"]
  by (simp add: get_precision_recall_at_iou_def ratio_def)

lemma precision_self:
  assumes "bs \<noteq> []" and "\<forall>a \<in> set bs. \<forall>b \<in> set bs. iou \<le> ov a b \<longleftrightarrow> a = b"
  shows "get_precision_recall_at_iou ov bs bs iou = (1, 1)"
  using assms true_positives_exact [of bs bs iou ov]
  by (simp add: get_precision_recall_at_iou_def ratio_def)

end
