(* ===== verification/DetectionDecay.thy ===== *)
theory DetectionDecay
  imports PrecisionRecall "HOL-Library.Sublist"
begin

text \<open>
  The detection-decay evaluator of
  \<open>src/pylot/perception/detection/detection_decay_operator.py\<close>
  (class \<open>DetectionDecayOperator\<close>), the spec's DecayWindowAccumulator. Its
  state is the deque \<open>_ground_bboxes\<close> of \<open>(now, person boxes)\<close>
  entries, oldest first. Each \<open>on_data\<close> evicts the entries older than
  \<open>decay_max_latency\<close> from the front, scores the new boxes against every
  remaining entry (average precision over the nine IoU thresholds), and appends
  the new entry. The messages it sends are \<open>(latency, avg_precision)\<close> pairs;
  the CSV and log lines are not modelled.
\<close>

section \<open>Data\<close>

text \<open>The two fields of a pylot \<open>Obstacle\<close> the operator reads (the class is
  outside the repository's sources).\<close>

record 'b obstacle =
  label :: string
  bounding_box :: 'b

definition is_person :: "'b obstacle \<Rightarrow> bool" where
  "is_person ob \<longleftrightarrow> label ob = ''person''"

record 'b decay_operator =
  ground_bboxes :: "(int \<times> 'b list) list"

definition decay_init :: "'b decay_operator" where
  "decay_init = \<lparr>ground_bboxes = []\<rparr>"

text \<open>\<open>self._iou_thresholds = [0.1 * i for i in range(1, 10)]\<close>.\<close>

definition iou_thresholds :: "rat list" where
  "iou_thresholds = map (\<lambda>i. of_nat i / 10) [1..<10]"

section \<open>The handler\<close>

text \<open>The eviction loop, lines 38--41: pop from the front while the oldest entry
  is more than \<open>decay_max_latency\<close> older than the new game time.\<close>

fun evict_old :: "int \<Rightarrow> int \<Rightarrow> (int \<times> 'b list) list \<Rightarrow> (int \<times> 'b list) list" where
  "evict_old now max_latency [] = []"
| "evict_old now max_latency ((t, bs) # w) =
     (if now - t > max_latency then evict_old now max_latency w else (t, bs) # w)"

text \<open>Lines 50--56: the precision at each threshold, averaged.\<close>

definition avg_precision :: "('b \<Rightarrow> 'b \<Rightarrow> rat) \<Rightarrow> 'b list \<Rightarrow> 'b list \<Rightarrow> rat" where
  "avg_precision ov bboxes old_bboxes =
     sum_list (map (\<lambda>iou. fst (get_precision_recall_at_iou ov bboxes old_bboxes iou)) iou_thresholds)
     / of_nat (length iou_thresholds)"

text \<open>Lines 44--64: one message per remaining entry where either box list is
  non-empty, in window order.\<close>

definition decay_messages ::
  "('b \<Rightarrow> 'b \<Rightarrow> rat) \<Rightarrow> int \<Rightarrow> 'b list \<Rightarrow> (int \<times> 'b list) list \<Rightarrow> (int \<times> rat) list" where
  "decay_messages ov now bboxes window =
     [(now - old_game_time, avg_precision ov bboxes old_bboxes).
        (old_game_time, old_bboxes) \<leftarrow> window, bboxes \<noteq> [] \<or> old_bboxes \<noteq> []]"

text \<open>\<open>on_data\<close>, lines 26--67. The assertion on the number of coordinates is
  the only raise.\<close>

definition decay_on_data ::
  "('b \<Rightarrow> 'b \<Rightarrow> rat) \<Rightarrow> int \<Rightarrow> timestamp \<Rightarrow> 'b obstacle list \<Rightarrow> 'b decay_operator
   \<Rightarrow> ('b decay_operator \<times> (int \<times> rat) list) result" where
  "decay_on_data ov max_latency ts obstacles s =
     (case ts of
        TS [now] \<Rightarrow>
          let bboxes = map bounding_box (filter is_person obstacles);
              window = evict_old now max_latency (ground_bboxes s)
          in Inr (s\<lparr>ground_bboxes := window @ [(now, bboxes)]\<rparr>,
                  decay_messages ov now bboxes window)
      | _ \<Rightarrow> Inl AssertionError)"

text \<open>A run over a sequence of frames; the messages of all frames, in order.\<close>

fun decay_run ::
  "('b \<Rightarrow> 'b \<Rightarrow> rat) \<Rightarrow> int \<Rightarrow> 'b decay_operator \<Rightarrow> (timestamp \<times> 'b obstacle list) list
   \<Rightarrow> ('b decay_operator \<times> (int \<times> rat) list) result" where
  "decay_run ov lat s [] = Inr (s, [])"
| "decay_run ov lat s ((ts, obs) # fs) =
     (case decay_on_data ov lat ts obs s of
        Inl e \<Rightarrow> Inl e
      | Inr (s', out) \<Rightarrow>
          (case decay_run ov lat s' fs of
             Inl e \<Rightarrow> Inl e
           | Inr (s'', outs) \<Rightarrow> Inr (s'', out @ outs)))"

text \<open>The window invariant: entries sorted by game time, and none older than
  \<open>max_latency\<close> relative to the newest entry (the last one, which is always
  the frame seen last).\<close>

definition decay_window_ok :: "int \<Rightarrow> (int \<times> 'b list) list \<Rightarrow> bool" where
  "decay_window_ok lat w \<longleftrightarrow>
     sorted (map fst w) \<and> (\<forall>(t, _) \<in> set w. fst (last w) - t \<le> lat)"

section \<open>Eviction\<close>

lemma evict_old_dropWhile:
  "evict_old g lat w = dropWhile (\<lambda>(t, _). lat < g - t) w"
  by (induction g lat w rule: evict_old.induct) auto

lemma evict_old_suffix: "suffix (evict_old g lat w) w"
  by (simp add: evict_old_dropWhile suffix_dropWhile)

lemma evict_old_young:
  assumes "sorted (map fst w)" and "(t, b) \<in> set (evict_old g lat w)"
  shows "g - t \<le> lat"
  using assms
proof (induction g lat w rule: evict_old.induct)
  case (1 g lat)
  then show ?case by simp
next
  case (2 g lat t0 bs w)
  show ?case
  proof (cases "lat < g - t0")
    case True
    with 2 show ?thesis by simp
  next
    case False
    with "2.prems" have "t0 \<le> t" by auto
    with False show ?thesis by simp
  qed
qed

lemma sorted_map_fst_suffix:
  "suffix v w \<Longrightarrow> sorted (map fst w) \<Longrightarrow> sorted (map fst v)"
  by (auto simp: suffix_def sorted_append)

section \<open>Lemmas on the handler\<close>

lemma decay_on_data_TS:
  "decay_on_data ov lat (TS [g]) obs s = Inr (s', out) \<longleftrightarrow>
     ground_bboxes s' = evict_old g lat (ground_bboxes s) @ [(g, map bounding_box (filter is_person obs))]
     \<and> s' = s\<lparr>ground_bboxes := ground_bboxes s'\<rparr>
     \<and> out = decay_messages ov g (map bounding_box (filter is_person obs)) (evict_old g lat (ground_bboxes s))"
  by (auto simp: decay_on_data_def Let_def)

lemma decay_on_data_Inr:
  "decay_on_data ov lat ts obs s = Inr r \<Longrightarrow> \<exists>g. ts = TS [g]"
  by (auto simp: decay_on_data_def split: timestamp.splits list.splits)

lemma decay_window_step:
  assumes "decay_window_ok lat w" and "\<forall>(t, _) \<in> set w. t \<le> g" and "0 \<le> lat"
  shows "decay_window_ok lat (evict_old g lat w @ [(g, b)])"
proof -
  have sw: "sorted (map fst w)" using assms(1) by (simp add: decay_window_ok_def)
  have suf: "suffix (evict_old g lat w) w" by (rule evict_old_suffix)
  have "sorted (map fst (evict_old g lat w))"
    using sorted_map_fst_suffix [OF suf sw] .
  moreover have "\<forall>(t, _) \<in> set (evict_old g lat w). t \<le> g"
    using assms(2) set_mono_suffix [OF suf] by blast
  moreover have "\<forall>(t, _) \<in> set (evict_old g lat w). g - t \<le> lat"
    using evict_old_young [OF sw] by blast
  ultimately show ?thesis
    using assms(3) by (auto simp: decay_window_ok_def sorted_append)
qed

lemma avg_precision_bounds: "0 \<le> avg_precision ov b old \<and> avg_precision ov b old \<le> 1"
proof -
  let ?f = "\<lambda>iou. fst (get_precision_recall_at_iou ov b old iou)"
  have "0 \<le> sum_list (map ?f iou_thresholds)"
    by (rule sum_list_nonneg) (auto simp: precision_recall_bounds)
  moreover have "sum_list (map ?f iou_thresholds) \<le> sum_list (map (\<lambda>_. 1) iou_thresholds)"
    by (rule sum_list_mono) (simp add: precision_recall_bounds)
  moreover have "sum_list (map (\<lambda>_. 1::rat) iou_thresholds) = of_nat (length iou_thresholds)"
    by (simp add: sum_list_triv)
  moreover have "length iou_thresholds = 9"
    by (simp add: iou_thresholds_def)
  ultimately show ?thesis
    by (simp add: avg_precision_def)
qed

lemma decay_messages_bounds:
  assumes "\<forall>(t, _) \<in> set w. 0 \<le> g - t \<and> g - t \<le> lat"
  shows "\<forall>(l, p) \<in> set (decay_messages ov g b w). 0 \<le> l \<and> l \<le> lat \<and> 0 \<le> p \<and> p \<le> 1"
  using assms avg_precision_bounds by (fastforce simp: decay_messages_def)

lemma decay_run_inv:
  assumes "decay_run ov lat s fs = Inr (s', outs)"
    and "decay_window_ok lat (ground_bboxes s)"
    and "\<forall>(t, _) \<in> set (ground_bboxes s). \<forall>(ts, _) \<in> set fs. TS [t] \<le> ts"
    and "sorted (map fst fs)" and "0 \<le> lat"
  shows "decay_window_ok lat (ground_bboxes s')
         \<and> (\<forall>(l, p) \<in> set outs. 0 \<le> l \<and> l \<le> lat \<and> 0 \<le> p \<and> p \<le> 1)"
  using assms
proof (induction fs arbitrary: s outs)
  case Nil
  then show ?case by simp
next
  case (Cons f fs)
  obtain ts obs where f: "f = (ts, obs)" by (cases f)
  from Cons.prems(1) f obtain s1 out outs' where
    step: "decay_on_data ov lat ts obs s = Inr (s1, out)"
    and run: "decay_run ov lat s1 fs = Inr (s', outs')"
    and outs: "outs = out @ outs'"
    by (auto split: sum.splits prod.splits)
  from step obtain g where g: "ts = TS [g]" by (auto dest: decay_on_data_Inr)
  let ?b = "map bounding_box (filter is_person obs)"
  let ?w = "evict_old g lat (ground_bboxes s)"
  from step g have w1: "ground_bboxes s1 = ?w @ [(g, ?b)]" and out: "out = decay_messages ov g ?b ?w"
    by (simp_all add: decay_on_data_TS)
  have le_g: "\<forall>(t, _) \<in> set (ground_bboxes s). t \<le> g"
    using Cons.prems(3) f g by auto
  have ok1: "decay_window_ok lat (ground_bboxes s1)"
    using decay_window_step [OF Cons.prems(2) le_g Cons.prems(5)] w1 by simp
  have sorted_fs: "sorted (map fst fs)" and g_le: "\<forall>(ts', _) \<in> set fs. TS [g] \<le> ts'"
    using Cons.prems(4) f g by auto
  have sub: "set ?w \<subseteq> set (ground_bboxes s)"
    by (rule set_mono_suffix [OF evict_old_suffix])
  have "\<forall>(t, _) \<in> set (ground_bboxes s1). \<forall>(ts', _) \<in> set fs. TS [t] \<le> ts'"
  proof (intro ballI, clarify)
    fix t b ts' obs'
    assume tb: "(t, b) \<in> set (ground_bboxes s1)" and ts': "(ts', obs') \<in> set fs"
    from ts' g_le have "TS [g] \<le> ts'" by auto
    moreover from tb w1 sub le_g have "t \<le> g" by auto
    ultimately show "TS [t] \<le> ts'" by (metis TS_single_le order_trans)
  qed
  with Cons.IH [OF run ok1] sorted_fs Cons.prems(5)
  have ih: "decay_window_ok lat (ground_bboxes s')
      \<and> (\<forall>(l, p) \<in> set outs'. 0 \<le> l \<and> l \<le> lat \<and> 0 \<le> p \<and> p \<le> 1)"
    by blast
  have sw: "sorted (map fst (ground_bboxes s))"
    using Cons.prems(2) by (simp add: decay_window_ok_def)
  have "\<forall>(t, _) \<in> set ?w. 0 \<le> g - t \<and> g - t \<le> lat"
    using le_g evict_old_young [OF sw] sub by auto
  then have "\<forall>(l, p) \<in> set out. 0 \<le> l \<and> l \<le> lat \<and> 0 \<le> p \<and> p \<le> 1"
    unfolding out by (rule decay_messages_bounds)
  with ih outs show ?case by auto
qed

section \<open>Average precision in special cases\<close>

lemma iou_thresholds_range: "iou \<in> set iou_thresholds \<Longrightarrow> 1/10 \<le> iou \<and> iou \<le> 9/10"
  by (auto simp: iou_thresholds_def)

lemma avg_precision_const:
  assumes "\<forall>iou \<in> set iou_thresholds. fst (get_precision_recall_at_iou ov bs old iou) = c"
  shows "avg_precision ov bs old = c"
proof -
  have "map (\<lambda>iou. fst (get_precision_recall_at_iou ov bs old iou)) iou_thresholds
        = map (\<lambda>_. c) iou_thresholds"
    using assms by simp
  then have "sum_list (map (\<lambda>iou. fst (get_precision_recall_at_iou ov bs old iou)) iou_thresholds)
        = sum_list (map (\<lambda>_. c) iou_thresholds)"
    by (rule arg_cong)
  also have "\<dots> = of_nat (length iou_thresholds) * c"
    by (rule sum_list_triv)
  moreover have "length iou_thresholds = 9"
    by (simp add: iou_thresholds_def)
  ultimately show ?thesis
    by (simp add: avg_precision_def)
qed

lemma avg_precision_self:
  assumes "bs \<noteq> []" and "\<forall>a \<in> set bs. 9/10 \<le> ov a a"
    and "\<forall>a \<in> set bs. \<forall>b \<in> set bs. a \<noteq> b \<longrightarrow> ov a b < 1/10"
  shows "avg_precision ov bs bs = 1"
proof (rule avg_precision_const, intro ballI)
  fix iou assume "iou \<in> set iou_thresholds"
  then have r: "1/10 \<le> iou" "iou \<le> 9/10" by (auto dest: iou_thresholds_range)
  have "\<forall>a \<in> set bs. \<forall>b \<in> set bs. iou \<le> ov a b \<longleftrightarrow> a = b"
  proof (intro ballI)
    fix a b assume a: "a \<in> set bs" and b: "b \<in> set bs"
    show "iou \<le> ov a b \<longleftrightarrow> a = b"
    proof (cases "a = b")
      case True
      with a assms(2) r show ?thesis by force
    next
      case False
      with a b assms(3) r show ?thesis by force
    qed
  qed
  with assms(1) show "fst (get_precision_recall_at_iou ov bs bs iou) = 1"
    by (simp add: precision_self)
qed

lemma avg_precision_one_empty:
  assumes "bs = [] \<or> old = []"
  shows "avg_precision ov bs old = 0"
proof (rule avg_precision_const, intro ballI)
  fix iou
  show "fst (get_precision_recall_at_iou ov bs old iou) = 0"
    using assms precision_empty_ground [of ov bs iou]
    by (auto simp: get_precision_recall_at_iou_def ratio_def)
qed

section \<open>Properties\<close>

text \<open>C6 (decay window invariant): on a run from the empty window whose frames
  arrive in non-decreasing game time, the window stays sorted and holds no
  entry older than \<open>decay_max_latency\<close> relative to the newest frame.\<close>

theorem decay_window_invariant:
  assumes "decay_run ov lat decay_init fs = Inr (s, outs)"
    and "sorted (map fst fs)" and "0 \<le> lat"
  shows "decay_window_ok lat (ground_bboxes s)"
  using decay_run_inv [OF assms(1) _ _ assms(2,3)]
  by (simp add: decay_init_def decay_window_ok_def)

text \<open>C7 (decay message bounds): on such a run every message the operator sends
  carries a latency between 0 and \<open>decay_max_latency\<close> and an average
  precision between 0 and 1.\<close>

theorem decay_messages_in_range:
  assumes "decay_run ov lat decay_init fs = Inr (s, outs)"
    and "sorted (map fst fs)" and "0 \<le> lat"
  shows "\<forall>(l, p) \<in> set outs. 0 \<le> l \<and> l \<le> lat \<and> 0 \<le> p \<and> p \<le> 1"
  using decay_run_inv [OF assms(1) _ _ assms(2,3)]
  by (simp add: decay_init_def decay_window_ok_def)

text \<open>Eviction scenario of the spec: with \<open>decay_max_latency = 100\<close> and
  frames with one person at game times 0, 50, 120 and 260, the window ends
  holding only the frame of time 260, and the operator sends exactly two
  messages, of latency 50 (at time 50, against time 0) and 70 (at time 120,
  against time 50).\<close>

theorem decay_eviction_scenario:
  "decay_run ov 100 decay_init
     [(TS [0], [\<lparr>label = ''person'', bounding_box = b\<rparr>]),
      (TS [50], [\<lparr>label = ''person'', bounding_box = b\<rparr>]),
      (TS [120], [\<lparr>label = ''person'', bounding_box = b\<rparr>]),
      (TS [260], [\<lparr>label = ''person'', bounding_box = b\<rparr>])]
   = Inr (\<lparr>ground_bboxes = [(260, [b])]\<rparr>,
          [(50, avg_precision ov [b] [b]), (70, avg_precision ov [b] [b])])"
  by (simp add: decay_on_data_def Let_def decay_messages_def is_person_def decay_init_def)

text \<open>Assertion: a timestamp that is not a single game-time coordinate makes
  \<open>on_data\<close> fail its assertion before the window changes.\<close>

theorem decay_on_data_assert:
  assumes "\<forall>g. ts \<noteq> TS [g]"
  shows "decay_on_data ov lat ts obs s = Inl AssertionError"
  using assms
  by (auto simp: decay_on_data_def split: timestamp.splits list.splits)


section \<open>Witnesses\<close>

lemmas decay_eval_simps = decay_on_data_def Let_def decay_messages_def is_person_def decay_init_def

theorem decay_window_invariant_witness:
  "decay_run (\<lambda>a b. if a = b then (1::rat) else 0) 100 decay_init
     [(TS [0], [\<lparr>label = ''person'', bounding_box = (1::nat)\<rparr>]),
      (TS [120], [\<lparr>label = ''car'', bounding_box = 2\<rparr>])]
   = Inr (\<lparr>ground_bboxes = [(120, [])]\<rparr>, [])
   \<and> decay_window_ok 100 [(120::int, [] :: nat list)]"
proof -
  have run: "decay_run (\<lambda>a b. if a = b then (1::rat) else 0) 100 decay_init
     [(TS [0], [\<lparr>label = ''person'', bounding_box = (1::nat)\<rparr>]),
      (TS [120], [\<lparr>label = ''car'', bounding_box = 2\<rparr>])]
   = Inr (\<lparr>ground_bboxes = [(120, [])]\<rparr>, [])"
    by (simp add: decay_eval_simps)
  have "sorted (map fst [(TS [0], [\<lparr>label = ''person'', bounding_box = (1::nat)\<rparr>]),
      (TS [120], [\<lparr>label = ''car'', bounding_box = 2\<rparr>])])" by simp
  from decay_window_invariant [OF run this] run show ?thesis by simp
qed

theorem decay_messages_in_range_witness:
  "decay_run (\<lambda>a b. if a = b then (1::rat) else 0) 100 decay_init
     [(TS [0], [\<lparr>label = ''person'', bounding_box = (1::nat)\<rparr>]),
      (TS [60], [\<lparr>label = ''person'', bounding_box = 1\<rparr>])]
   = Inr (\<lparr>ground_bboxes = [(0, [1]), (60, [1])]\<rparr>, [(60, avg_precision (\<lambda>a b. if a = b then (1::rat) else 0) [1::nat] [1])])
   \<and> 0 \<le> avg_precision (\<lambda>a b. if a = b then (1::rat) else 0) [1::nat] [1] \<and> avg_precision (\<lambda>a b. if a = b then (1::rat) else 0) [1::nat] [1] \<le> 1"
proof -
  have run: "decay_run (\<lambda>a b. if a = b then (1::rat) else 0) 100 decay_init
     [(TS [0], [\<lparr>label = ''person'', bounding_box = (1::nat)\<rparr>]),
      (TS [60], [\<lparr>label = ''person'', bounding_box = 1\<rparr>])]
   = Inr (\<lparr>ground_bboxes = [(0, [1]), (60, [1])]\<rparr>, [(60, avg_precision (\<lambda>a b. if a = b then (1::rat) else 0) [1::nat] [1])])"
    by (simp add: decay_eval_simps)
  have "sorted (map fst [(TS [0], [\<lparr>label = ''person'', bounding_box = (1::nat)\<rparr>]),
      (TS [60], [\<lparr>label = ''person'', bounding_box = 1\<rparr>])])" by simp
  from decay_messages_in_range [OF run this] run show ?thesis by simp
qed

theorem decay_on_data_assert_witness:
  "decay_on_data (\<lambda>a b. if a = b then (1::rat) else 0) 100 Top ([] :: nat obstacle list) decay_init = Inl AssertionError
   \<and> decay_on_data (\<lambda>a b. if a = b then (1::rat) else 0) 100 (TS [1, 2]) ([] :: nat obstacle list) decay_init = Inl AssertionError"
proof -
  have "\<forall>g. Top \<noteq> TS [g]" and "\<forall>g. TS [1, 2] \<noteq> TS [g]" by simp_all
  from decay_on_data_assert [OF this(1)] decay_on_data_assert [OF this(2)] show ?thesis by blast
qed

end
