(* ===== verification/TrajectoryMetrics.thy ===== *)
theory TrajectoryMetrics
  imports Prelude
begin

text \<open>
  The trajectory metrics of \<open>PredictionEvalOperator._calculate_metrics\<close>
  (\<open>src/pylot/prediction/prediction_eval_operator.py\<close>, lines 100--202), the
  spec's MetricAggregator: for every obstacle prediction, the predicted and the
  ground-truth trajectory are projected to 2D, compared point by point from the
  end (\<open>trajectory[-idx]\<close>), and the mean squared distance (MSD), the average
  displacement error (ADE) and the final displacement error (FDE) are added to
  per-class sums (vehicles, persons); the report rows are the per-class and
  overall means. \<open>Vector2D\<close>, its distances and the obstacle labels belong to
  pylot modules outside the repository's sources and are modelled from the spec:
  the L1 distance is \<open>|dx| + |dy|\<close>, the distance summed for MSD is the squared
  Euclidean distance \<open>dx\<^sup>2 + dy\<^sup>2\<close>.
\<close>

section \<open>Data\<close>

record location =
  loc_x :: rat
  loc_y :: rat
  loc_z :: rat

record vector2d =
  vx :: rat
  vy :: rat

definition l1_distance :: "vector2d \<Rightarrow> vector2d \<Rightarrow> rat" where
  "l1_distance a b = \<bar>vx a - vx b\<bar> + \<bar>vy a - vy b\<bar>"

definition l2_distance :: "vector2d \<Rightarrow> vector2d \<Rightarrow> rat" where
  "l2_distance a b = (vx a - vx b)\<^sup>2 + (vy a - vy b)\<^sup>2"

text \<open>\<open>Vector2D(transform.location.x, transform.location.y)\<close>: altitude dropped.\<close>

definition to_vector2d :: "location \<Rightarrow> vector2d" where
  "to_vector2d l = \<lparr>vx = loc_x l, vy = loc_y l\<rparr>"

record obstacle_prediction =
  pred_id :: int
  pred_label :: string
  predicted_trajectory :: "location list"

record obstacle_trajectory =
  traj_id :: int
  trajectory :: "location list"

definition vehicle_labels :: "string list" where
  "vehicle_labels = [''car'', ''bicycle'', ''motorcycle'', ''bus'', ''truck'', ''vehicle'']"

definition pred_is_vehicle :: "obstacle_prediction \<Rightarrow> bool" where
  "pred_is_vehicle op \<longleftrightarrow> pred_label op \<in> set vehicle_labels"

definition pred_is_person :: "obstacle_prediction \<Rightarrow> bool" where
  "pred_is_person op \<longleftrightarrow> pred_label op = ''person''"

section \<open>Scoring one obstacle\<close>

text \<open>
  The loop of lines 142--148, \<open>for idx in range(1, len(predicted) + 1)\<close>: the
  \<open>idx\<close>-th point from the end of both trajectories, with Python's negative
  indexing (an \<open>IndexError\<close> once \<open>idx\<close> passes the ground trajectory's length).
  \<open>k\<close> counts the iterations left; the pair accumulates the L2 and L1 sums.
\<close>

fun distance_loop ::
  "vector2d list \<Rightarrow> vector2d list \<Rightarrow> nat \<Rightarrow> nat \<Rightarrow> rat \<times> rat \<Rightarrow> (rat \<times> rat) result" where
  "distance_loop p g idx 0 acc = Inr acc"
| "distance_loop p g idx (Suc k) (l2, l1) =
     (case py_get p (- int idx) of
        Inl e \<Rightarrow> Inl e
      | Inr a \<Rightarrow>
          (case py_get g (- int idx) of
             Inl e \<Rightarrow> Inl e
           | Inr b \<Rightarrow> distance_loop p g (Suc idx) k (l2 + l2_distance a b, l1 + l1_distance a b)))"

text \<open>Lines 140--151: the loop, the two divisions by \<open>len(predicted_trajectory)\<close>
  (a \<open>ZeroDivisionError\<close> on an empty prediction) and the final displacement at
  index \<open>-1\<close>. The result is \<open>(msd, ade, fde)\<close> of one obstacle.\<close>

definition score_obstacle :: "vector2d list \<Rightarrow> vector2d list \<Rightarrow> (rat \<times> rat \<times> rat) result" where
  "score_obstacle p g =
     (case distance_loop p g 1 (length p) (0, 0) of
        Inl e \<Rightarrow> Inl e
      | Inr (l2, l1) \<Rightarrow>
          if length p = 0 then Inl ZeroDivisionError
          else
            (case py_get p (-1) of
               Inl e \<Rightarrow> Inl e
             | Inr a \<Rightarrow>
                 (case py_get g (-1) of
                    Inl e \<Rightarrow> Inl e
                  | Inr b \<Rightarrow> Inr (l2 / of_nat (length p), l1 / of_nat (length p), l1_distance a b))))"

text \<open>The reference the loop implements: the two trajectories aligned at their
  ends, i.e.\ zipped in reverse.\<close>

definition aligned_sums :: "vector2d list \<Rightarrow> vector2d list \<Rightarrow> rat \<times> rat" where
  "aligned_sums p g =
     (sum_list (map (\<lambda>(a, b). l2_distance a b) (zip (rev p) (rev g))),
      sum_list (map (\<lambda>(a, b). l1_distance a b) (zip (rev p) (rev g))))"

section \<open>Aggregation over a batch\<close>

text \<open>The eight local accumulators of lines 109--119.\<close>

record class_sums =
  vehicle_cnt :: nat
  vehicle_msd :: rat
  vehicle_ade :: rat
  vehicle_fde :: rat
  person_cnt :: nat
  person_msd :: rat
  person_ade :: rat
  person_fde :: rat

definition sums_init :: class_sums where
  "sums_init =
     \<lparr>vehicle_cnt = 0, vehicle_msd = 0, vehicle_ade = 0, vehicle_fde = 0,
      person_cnt = 0, person_msd = 0, person_ade = 0, person_fde = 0\<rparr>"

text \<open>The body of the loop over the predictions, lines 121--162: the ground
  trajectory is looked up by id (\<open>KeyError\<close>), the label must be a vehicle or
  a person label (\<open>ValueError\<close>), then the obstacle is scored and its
  class's sums grow. The count is incremented before scoring in the source;
  an exception discards all the locals, so the order is not observable.\<close>

definition metrics_step ::
  "(int \<rightharpoonup> obstacle_trajectory) \<Rightarrow> obstacle_prediction \<Rightarrow> class_sums \<Rightarrow> class_sums result" where
  "metrics_step ground op acc =
     (let predicted = map to_vector2d (predicted_trajectory op) in
      case ground (pred_id op) of
        None \<Rightarrow> Inl KeyError
      | Some gt \<Rightarrow>
          let ground_traj = map to_vector2d (trajectory gt) in
          if \<not> pred_is_vehicle op \<and> \<not> pred_is_person op then Inl ValueError
          else
            (case score_obstacle predicted ground_traj of
               Inl e \<Rightarrow> Inl e
             | Inr (msd, ade, fde) \<Rightarrow>
                 if pred_is_vehicle op then
                   Inr (acc\<lparr>vehicle_cnt := Suc (vehicle_cnt acc),
                             vehicle_msd := vehicle_msd acc + msd,
                             vehicle_ade := vehicle_ade acc + ade,
                             vehicle_fde := vehicle_fde acc + fde\<rparr>)
                 else
                   Inr (acc\<lparr>person_cnt := Suc (person_cnt acc),
                             person_msd := person_msd acc + msd,
                             person_ade := person_ade acc + ade,
                             person_fde := person_fde acc + fde\<rparr>)))"

fun metrics_loop ::
  "(int \<rightharpoonup> obstacle_trajectory) \<Rightarrow> obstacle_prediction list \<Rightarrow> class_sums \<Rightarrow> class_sums result" where
  "metrics_loop ground [] acc = Inr acc"
| "metrics_loop ground (op # ops) acc =
     (case metrics_step ground op acc of Inl e \<Rightarrow> Inl e | Inr acc' \<Rightarrow> metrics_loop ground ops acc')"

text \<open>The CSV rows of lines 165--202, as (metric name, value): the overall rows
  when any obstacle was scored, then the person rows, then the vehicle rows,
  each group only when its count is positive.\<close>

definition metric_rows :: "class_sums \<Rightarrow> (string \<times> rat) list" where
  "metric_rows acc =
     (let actor_cnt = person_cnt acc + vehicle_cnt acc in
      (if actor_cnt > 0 then
         [(''MSD'', (person_msd acc + vehicle_msd acc) / of_nat actor_cnt),
          (''ADE'', (person_ade acc + vehicle_ade acc) / of_nat actor_cnt),
          (''FDE'', (person_fde acc + vehicle_fde acc) / of_nat actor_cnt)]
       else [])
      @ (if person_cnt acc > 0 then
           [(''person-MSD'', person_msd acc / of_nat (person_cnt acc)),
            (''person-ADE'', person_ade acc / of_nat (person_cnt acc)),
            (''person-FDE'', person_fde acc / of_nat (person_cnt acc))]
         else [])
      @ (if vehicle_cnt acc > 0 then
           [(''vehicle-MSD'', vehicle_msd acc / of_nat (vehicle_cnt acc)),
            (''vehicle-ADE'', vehicle_ade acc / of_nat (vehicle_cnt acc)),
            (''vehicle-FDE'', vehicle_fde acc / of_nat (vehicle_cnt acc))]
         else []))"

definition calculate_metrics ::
  "(int \<rightharpoonup> obstacle_trajectory) \<Rightarrow> obstacle_prediction list \<Rightarrow> (string \<times> rat) list result" where
  "calculate_metrics ground predictions =
     (case metrics_loop ground predictions sums_init of
        Inl e \<Rightarrow> Inl e
      | Inr acc \<Rightarrow> Inr (metric_rows acc))"

text \<open>A 2D point moved by a constant offset.\<close>

definition translate :: "rat \<Rightarrow> rat \<Rightarrow> vector2d \<Rightarrow> vector2d" where
  "translate dx dy v = \<lparr>vx = vx v + dx, vy = vy v + dy\<rparr>"

text \<open>A batch whose every prediction is its ground trajectory moved by the same
  offset, with a vehicle or person label.\<close>

definition offset_case ::
  "(int \<rightharpoonup> obstacle_trajectory) \<Rightarrow> rat \<Rightarrow> rat \<Rightarrow> obstacle_prediction \<Rightarrow> bool" where
  "offset_case ground dx dy op \<longleftrightarrow>
     (case ground (pred_id op) of
        None \<Rightarrow> False
      | Some gt \<Rightarrow>
          trajectory gt \<noteq> []
          \<and> map to_vector2d (predicted_trajectory op)
              = map (translate dx dy) (map to_vector2d (trajectory gt))
          \<and> (pred_is_vehicle op \<or> pred_is_person op))"

text \<open>Class sums in which every scored obstacle contributed the same
  \<open>(c2, c1, c1)\<close>.\<close>

definition uniform_sums :: "rat \<Rightarrow> rat \<Rightarrow> class_sums \<Rightarrow> bool" where
  "uniform_sums c2 c1 acc \<longleftrightarrow>
     vehicle_msd acc = of_nat (vehicle_cnt acc) * c2
     \<and> vehicle_ade acc = of_nat (vehicle_cnt acc) * c1
     \<and> vehicle_fde acc = of_nat (vehicle_cnt acc) * c1
     \<and> person_msd acc = of_nat (person_cnt acc) * c2
     \<and> person_ade acc = of_nat (person_cnt acc) * c1
     \<and> person_fde acc = of_nat (person_cnt acc) * c1"

definition msd_rows :: "string list" where
  "msd_rows = [''MSD'', ''person-MSD'', ''vehicle-MSD'']"

section \<open>Loop equals reference\<close>

lemma py_get_neg_Suc:
  "py_get xs (- int (Suc j)) =
     (if j < length xs then Inr (rev xs ! j) else Inl IndexError)"
proof -
  have "py_get xs (- int (Suc j)) =
      (if Suc j \<le> length xs then Inr (xs ! (length xs - Suc j)) else Inl IndexError)"
    by (rule py_get_neg) simp
  moreover have "j < length xs \<Longrightarrow> rev xs ! j = xs ! (length xs - Suc j)"
    by (simp add: rev_nth)
  ultimately show ?thesis by (auto simp: Suc_le_eq)
qed

lemma py_get_minus_one_minus:
  "py_get xs (- 1 - int j) = (if j < length xs then Inr (rev xs ! j) else Inl IndexError)"
  using py_get_neg_Suc [of xs j] by simp

lemmas py_get_from_end = py_get_neg_Suc py_get_minus_one_minus

lemma distance_loop_sums:
  assumes "i + k \<le> length p"
  shows "distance_loop p g (Suc i) k (a2, a1) =
     (if i + k \<le> length g \<or> k = 0
      then Inr (a2 + sum_list (map (\<lambda>j. l2_distance (rev p ! j) (rev g ! j)) [i..<i + k]),
                a1 + sum_list (map (\<lambda>j. l1_distance (rev p ! j) (rev g ! j)) [i..<i + k]))
      else Inl IndexError)"
  using assms
proof (induction k arbitrary: i a2 a1)
  case 0
  then show ?case by simp
next
  case (Suc k)
  have ip: "i < length p" using Suc.prems by simp
  show ?case
  proof (cases "i < length g")
    case False
    with ip show ?thesis by (simp add: py_get_from_end)
  next
    case True
    have "distance_loop p g (Suc i) (Suc k) (a2, a1) =
            distance_loop p g (Suc (Suc i)) k
              (a2 + l2_distance (rev p ! i) (rev g ! i), a1 + l1_distance (rev p ! i) (rev g ! i))"
      using ip True by (simp add: py_get_from_end)
    also have "\<dots> = (if Suc i + k \<le> length g \<or> k = 0
      then Inr (a2 + l2_distance (rev p ! i) (rev g ! i)
                  + sum_list (map (\<lambda>j. l2_distance (rev p ! j) (rev g ! j)) [Suc i..<Suc i + k]),
                a1 + l1_distance (rev p ! i) (rev g ! i)
                  + sum_list (map (\<lambda>j. l1_distance (rev p ! j) (rev g ! j)) [Suc i..<Suc i + k]))
      else Inl IndexError)"
      using Suc.IH [of "Suc i"] Suc.prems by simp
    finally show ?thesis
      using True by (simp add: upt_rec add.assoc)
  qed
qed

lemma sum_upt_zip:
  assumes "length xs \<le> length ys"
  shows "sum_list (map (\<lambda>j. f (xs ! j) (ys ! j)) [0..<length xs])
           = sum_list (map (\<lambda>(a, b). f a b) (zip xs ys))"
proof -
  have "map (\<lambda>j. f (xs ! j) (ys ! j)) [0..<length xs] = map (\<lambda>(a, b). f a b) (zip xs ys)"
    using assms by (intro nth_equalityI) auto
  then show ?thesis by simp
qed

lemma distance_loop_aligned_eq:
  "distance_loop p g 1 (length p) (0, 0) =
     (if length p \<le> length g then Inr (aligned_sums p g) else Inl IndexError)"
proof -
  have "distance_loop p g (Suc 0) (length p) (0, 0) =
     (if length p \<le> length g
      then Inr (sum_list (map (\<lambda>j. l2_distance (rev p ! j) (rev g ! j)) [0..<length p]),
                sum_list (map (\<lambda>j. l1_distance (rev p ! j) (rev g ! j)) [0..<length p]))
      else Inl IndexError)"
    using distance_loop_sums [of 0 "length p" p g 0 0] by simp
  then show ?thesis
    using sum_upt_zip [of "rev p" "rev g" l2_distance] sum_upt_zip [of "rev p" "rev g" l1_distance]
    by (simp add: aligned_sums_def)
qed

section \<open>Scoring one obstacle, in closed form\<close>

lemma py_get_last: "xs \<noteq> [] \<Longrightarrow> py_get xs (-1) = Inr (last xs)"
  using py_get_neg [of 1 xs] by (auto simp: last_conv_nth Suc_le_eq)

lemma score_obstacle_eq:
  "score_obstacle p g =
     (if length g < length p then Inl IndexError
      else if p = [] then Inl ZeroDivisionError
      else Inr (fst (aligned_sums p g) / of_nat (length p),
                snd (aligned_sums p g) / of_nat (length p),
                l1_distance (last p) (last g)))"
proof -
  have ne: "p \<noteq> [] \<Longrightarrow> length p \<le> length g \<Longrightarrow> g \<noteq> []" by auto
  have dl: "distance_loop p g (Suc 0) (length p) (0, 0) =
      (if length p \<le> length g then Inr (aligned_sums p g) else Inl IndexError)"
    using distance_loop_aligned_eq [of p g] by simp
  show ?thesis
    using ne by (auto simp: score_obstacle_def dl py_get_last split: prod.splits)
qed

lemma aligned_sums_translate:
  "aligned_sums (map (translate dx dy) g) g =
     (of_nat (length g) * (dx\<^sup>2 + dy\<^sup>2), of_nat (length g) * (\<bar>dx\<bar> + \<bar>dy\<bar>))"
proof -
  have z: "zip (rev (map (translate dx dy) g)) (rev g) = map (\<lambda>v. (translate dx dy v, v)) (rev g)"
    by (simp add: rev_map zip_map1 zip_same_conv_map)
  show ?thesis
    by (simp add: aligned_sums_def z comp_def l2_distance_def l1_distance_def translate_def
        sum_list_triv)
qed

lemma zip_take_length: "length xs = n \<Longrightarrow> zip xs (take n ys) = zip xs ys"
proof (induction xs arbitrary: n ys)
  case Nil
  then show ?case by simp
next
  case (Cons x xs)
  then show ?case by (cases ys) auto
qed

lemma aligned_sums_drop:
  assumes "length p \<le> length g"
  shows "aligned_sums p (drop (length g - length p) g) = aligned_sums p g"
proof -
  have "rev (drop (length g - length p) g) = take (length (rev p)) (rev g)"
    using assms by (simp add: rev_drop)
  then show ?thesis
    by (simp add: aligned_sums_def zip_take_length)
qed

lemma metrics_step_offset:
  assumes "offset_case ground dx dy op" and "uniform_sums (dx\<^sup>2 + dy\<^sup>2) (\<bar>dx\<bar> + \<bar>dy\<bar>) acc"
  shows "\<exists>acc'. metrics_step ground op acc = Inr acc'
           \<and> uniform_sums (dx\<^sup>2 + dy\<^sup>2) (\<bar>dx\<bar> + \<bar>dy\<bar>) acc'
           \<and> vehicle_cnt acc' + person_cnt acc' = Suc (vehicle_cnt acc + person_cnt acc)"
proof -
  from assms(1) obtain gt where gt: "ground (pred_id op) = Some gt"
    and ne: "trajectory gt \<noteq> []"
    and tr: "map to_vector2d (predicted_trajectory op)
               = map (translate dx dy) (map to_vector2d (trajectory gt))"
    and lbl: "pred_is_vehicle op \<or> pred_is_person op"
    by (auto simp: offset_case_def split: option.splits)
  let ?g = "map to_vector2d (trajectory gt)"
  have last_tr: "last (map (translate dx dy) ?g) = translate dx dy (last ?g)"
    using ne by (simp add: last_map)
  have sc: "score_obstacle (map (translate dx dy) ?g) ?g
      = Inr (dx\<^sup>2 + dy\<^sup>2, \<bar>dx\<bar> + \<bar>dy\<bar>, \<bar>dx\<bar> + \<bar>dy\<bar>)"
    using ne by (simp add: score_obstacle_eq aligned_sums_translate last_tr l1_distance_def
        translate_def del: map_map)
  show ?thesis
    using assms(2) gt tr sc lbl
    by (auto simp: metrics_step_def uniform_sums_def algebra_simps simp del: map_map)
qed

lemma metrics_loop_offset:
  assumes "\<forall>op \<in> set ops. offset_case ground dx dy op"
    and "uniform_sums (dx\<^sup>2 + dy\<^sup>2) (\<bar>dx\<bar> + \<bar>dy\<bar>) acc"
  shows "\<exists>acc'. metrics_loop ground ops acc = Inr acc'
           \<and> uniform_sums (dx\<^sup>2 + dy\<^sup>2) (\<bar>dx\<bar> + \<bar>dy\<bar>) acc'
           \<and> vehicle_cnt acc' + person_cnt acc' = vehicle_cnt acc + person_cnt acc + length ops"
  using assms
proof (induction ops arbitrary: acc)
  case Nil
  then show ?case by simp
next
  case (Cons op ops)
  from metrics_step_offset [of ground dx dy op acc] Cons.prems obtain acc1 where
    step: "metrics_step ground op acc = Inr acc1"
    and u1: "uniform_sums (dx\<^sup>2 + dy\<^sup>2) (\<bar>dx\<bar> + \<bar>dy\<bar>) acc1"
    and c1: "vehicle_cnt acc1 + person_cnt acc1 = Suc (vehicle_cnt acc + person_cnt acc)"
    by auto
  from Cons.IH [OF _ u1] Cons.prems(1) obtain acc' where
    "metrics_loop ground ops acc1 = Inr acc'"
    and "uniform_sums (dx\<^sup>2 + dy\<^sup>2) (\<bar>dx\<bar> + \<bar>dy\<bar>) acc'"
    and "vehicle_cnt acc' + person_cnt acc' = vehicle_cnt acc1 + person_cnt acc1 + length ops"
    by auto
  with step c1 show ?case by auto
qed

lemma metric_rows_uniform:
  assumes "uniform_sums c2 c1 acc"
  shows "\<forall>(n, v) \<in> set (metric_rows acc). v = (if n \<in> set msd_rows then c2 else c1)"
  using assms
  by (auto simp: metric_rows_def uniform_sums_def msd_rows_def Let_def field_simps)

lemma metric_rows_nonempty:
  "0 < vehicle_cnt acc + person_cnt acc \<Longrightarrow> metric_rows acc \<noteq> []"
  by (auto simp: metric_rows_def Let_def)

section \<open>Properties\<close>

text \<open>C11 (loop against reference): the index loop of lines 142--148, which reads
  \<open>predicted[-idx]\<close> and \<open>ground[-idx]\<close> for \<open>idx = 1 .. len(predicted)\<close>,
  computes the L2 and L1 sums over the two trajectories zipped from their ends,
  and raises \<open>IndexError\<close> exactly when the ground trajectory is shorter.\<close>

theorem distance_loop_end_aligned:
  "distance_loop p g 1 (length p) (0, 0) =
     (if length p \<le> length g then Inr (aligned_sums p g) else Inl IndexError)"
  by (rule distance_loop_aligned_eq)

text \<open>Identical trajectories: an obstacle whose non-empty predicted
  trajectory equals its ground trajectory scores MSD = ADE = FDE = 0.\<close>

theorem score_identical:
  assumes "p \<noteq> []"
  shows "score_obstacle p p = Inr (0, 0, 0)"
proof -
  have "aligned_sums p p = (0, 0)"
    by (simp add: aligned_sums_def zip_same_conv_map comp_def l2_distance_def l1_distance_def)
  with assms show ?thesis
    by (simp add: score_obstacle_eq l1_distance_def)
qed

text \<open>C13 (constant offset): a prediction equal to a non-empty ground trajectory
  moved by \<open>(dx, dy)\<close> scores \<open>MSD = dx\<^sup>2 + dy\<^sup>2\<close> and
  \<open>ADE = FDE = |dx| + |dy|\<close>.\<close>

theorem score_offset:
  assumes "g \<noteq> []"
  shows "score_obstacle (map (translate dx dy) g) g
           = Inr (dx\<^sup>2 + dy\<^sup>2, \<bar>dx\<bar> + \<bar>dy\<bar>, \<bar>dx\<bar> + \<bar>dy\<bar>)"
  using assms
  by (simp add: score_obstacle_eq aligned_sums_translate last_map l1_distance_def translate_def)

text \<open>C14 (score branches): scoring one obstacle raises \<open>IndexError\<close> when the
  ground trajectory is shorter than the prediction, \<open>ZeroDivisionError\<close> on an
  empty prediction, and otherwise returns the end-aligned sums divided by the
  prediction's length and the L1 distance of the last points.\<close>

theorem score_obstacle_cases:
  "score_obstacle p g =
     (if length g < length p then Inl IndexError
      else if p = [] then Inl ZeroDivisionError
      else Inr (fst (aligned_sums p g) / of_nat (length p),
                snd (aligned_sums p g) / of_nat (length p),
                l1_distance (last p) (last g)))"
  by (rule score_obstacle_eq)

text \<open>C15 (unequal lengths accepted): a ground trajectory longer than the
  prediction raises nothing; only its last \<open>len(predicted)\<close> points are
  compared.\<close>

theorem score_longer_ground:
  assumes "length p \<le> length g"
  shows "score_obstacle p g = score_obstacle p (drop (length g - length p) g)"
proof (cases "p = []")
  case True
  then show ?thesis by (simp add: score_obstacle_eq)
next
  case False
  with assms have "length g - length p < length g" by (cases p) auto
  then have "last (drop (length g - length p) g) = last g"
    by (rule last_drop)
  with assms False show ?thesis
    by (simp add: score_obstacle_eq aligned_sums_drop)
qed

text \<open>C16 (batch with a constant offset): when every prediction of a non-empty
  batch is its ground trajectory moved by \<open>(dx, dy)\<close> and carries a vehicle or
  person label, \<open>_calculate_metrics\<close> succeeds and every row it logs, overall and
  per class, reports \<open>dx\<^sup>2 + dy\<^sup>2\<close> for MSD and \<open>|dx| + |dy|\<close> for ADE
  and FDE.\<close>

theorem calculate_metrics_offset:
  assumes "ops \<noteq> []" and "\<forall>op \<in> set ops. offset_case ground dx dy op"
  shows "\<exists>rows. calculate_metrics ground ops = Inr rows \<and> rows \<noteq> []
           \<and> (\<forall>(n, v) \<in> set rows.
                 v = (if n \<in> set msd_rows then dx\<^sup>2 + dy\<^sup>2 else \<bar>dx\<bar> + \<bar>dy\<bar>))"
proof -
  have "uniform_sums (dx\<^sup>2 + dy\<^sup>2) (\<bar>dx\<bar> + \<bar>dy\<bar>) sums_init"
    by (simp add: uniform_sums_def sums_init_def)
  from metrics_loop_offset [OF assms(2) this] obtain acc where
    loop: "metrics_loop ground ops sums_init = Inr acc"
    and u: "uniform_sums (dx\<^sup>2 + dy\<^sup>2) (\<bar>dx\<bar> + \<bar>dy\<bar>) acc"
    and cnt: "vehicle_cnt acc + person_cnt acc = length ops"
    by (auto simp: sums_init_def)
  have "metric_rows acc \<noteq> []"
    using cnt assms(1) by (intro metric_rows_nonempty) simp
  with loop metric_rows_uniform [OF u] show ?thesis
    by (simp add: calculate_metrics_def)
qed

text \<open>Unknown label: a prediction whose label is neither a vehicle nor a
  person label aborts the batch with \<open>ValueError\<close>.\<close>

theorem calculate_metrics_unknown_label:
  assumes "ground (pred_id op) = Some gt" and "\<not> pred_is_vehicle op" and "\<not> pred_is_person op"
  shows "calculate_metrics ground (op # ops) = Inl ValueError"
  using assms by (simp add: calculate_metrics_def metrics_step_def Let_def)

text \<open>C18 (missing ground truth): a prediction whose obstacle id has no
  ground-truth trajectory aborts the batch with \<open>KeyError\<close>.\<close>

theorem calculate_metrics_missing_ground:
  assumes "ground (pred_id op) = None"
  shows "calculate_metrics ground (op # ops) = Inl KeyError"
  using assms by (simp add: calculate_metrics_def metrics_step_def Let_def)

text \<open>C19 (empty prediction): a prediction with an empty trajectory, a ground
  track and a known label aborts the whole batch with \<open>ZeroDivisionError\<close>;
  the obstacle is not skipped.\<close>

theorem calculate_metrics_empty_prediction:
  assumes "ground (pred_id op) = Some gt" and "pred_is_vehicle op \<or> pred_is_person op"
    and "predicted_trajectory op = []"
  shows "calculate_metrics ground (op # ops) = Inl ZeroDivisionError"
  using assms by (auto simp: calculate_metrics_def metrics_step_def Let_def score_obstacle_eq)

section \<open>Witnesses\<close>

lemmas metrics_eval_simps = calculate_metrics_def metrics_step_def Let_def score_obstacle_eq
  aligned_sums_def l2_distance_def l1_distance_def to_vector2d_def translate_def
  pred_is_vehicle_def pred_is_person_def vehicle_labels_def offset_case_def msd_rows_def

theorem score_identical_witness:
  "score_obstacle [\<lparr>vx = 1, vy = 2\<rparr>] [\<lparr>vx = 1, vy = 2\<rparr>] = Inr (0, 0, 0)"
  using score_identical [of "[\<lparr>vx = 1, vy = 2\<rparr>]"] by simp

theorem score_offset_witness:
  "score_obstacle (map (translate 3 (-4)) [\<lparr>vx = 0, vy = 0\<rparr>, \<lparr>vx = 1, vy = 1\<rparr>])
       [\<lparr>vx = 0, vy = 0\<rparr>, \<lparr>vx = 1, vy = 1\<rparr>] = Inr (25, 7, 7)"
  using score_offset [of "[\<lparr>vx = 0, vy = 0\<rparr>, \<lparr>vx = 1, vy = 1\<rparr>]" 3 "-4"] by simp

theorem score_longer_ground_witness:
  "score_obstacle [\<lparr>vx = 1, vy = 1\<rparr>] [\<lparr>vx = 9, vy = 9\<rparr>, \<lparr>vx = 2, vy = 1\<rparr>]
     = score_obstacle [\<lparr>vx = 1, vy = 1\<rparr>] [\<lparr>vx = 2, vy = 1\<rparr>]
   \<and> score_obstacle [\<lparr>vx = 1, vy = 1\<rparr>] [\<lparr>vx = 2, vy = 1\<rparr>] = Inr (1, 1, 1)"
proof -
  have "length [\<lparr>vx = 1::rat, vy = 1\<rparr>] \<le> length [\<lparr>vx = 9::rat, vy = 9\<rparr>, \<lparr>vx = 2, vy = 1\<rparr>]"
    by simp
  from score_longer_ground [OF this] show ?thesis
    by (simp add: score_obstacle_eq aligned_sums_def l2_distance_def l1_distance_def)
qed

theorem calculate_metrics_offset_witness:
  "\<exists>rows. calculate_metrics ([1 \<mapsto> \<lparr>traj_id = 1, trajectory = [\<lparr>loc_x = 0, loc_y = 0, loc_z = 5\<rparr>]\<rparr>]) [\<lparr>pred_id = 1, pred_label = ''car'', predicted_trajectory = [\<lparr>loc_x = 3, loc_y = -4, loc_z = 0\<rparr>]\<rparr>] = Inr rows \<and> rows \<noteq> []
     \<and> list_all (\<lambda>(n, v). v = (if n \<in> set msd_rows then 25 else 7)) rows"
proof -
  have ne: "[\<lparr>pred_id = 1, pred_label = ''car'', predicted_trajectory = [\<lparr>loc_x = 3, loc_y = -4, loc_z = 0\<rparr>]\<rparr>] \<noteq> []" by simp
  have oc: "\<forall>op \<in> set [\<lparr>pred_id = 1, pred_label = ''car'', predicted_trajectory = [\<lparr>loc_x = 3, loc_y = -4, loc_z = 0\<rparr>]\<rparr>]. offset_case ([1 \<mapsto> \<lparr>traj_id = 1, trajectory = [\<lparr>loc_x = 0, loc_y = 0, loc_z = 5\<rparr>]\<rparr>]) 3 (-4) op"
    by (simp add: metrics_eval_simps)
  from calculate_metrics_offset [OF ne oc] obtain rows where
    "calculate_metrics ([1 \<mapsto> \<lparr>traj_id = 1, trajectory = [\<lparr>loc_x = 0, loc_y = 0, loc_z = 5\<rparr>]\<rparr>]) [\<lparr>pred_id = 1, pred_label = ''car'', predicted_trajectory = [\<lparr>loc_x = 3, loc_y = -4, loc_z = 0\<rparr>]\<rparr>] = Inr rows" and "rows \<noteq> []"
    and "\<forall>(n, v) \<in> set rows. v = (if n \<in> set msd_rows then 3\<^sup>2 + (-4)\<^sup>2 else \<bar>3\<bar> + \<bar>-4\<bar>)"
    by blast
  then show ?thesis by (auto simp: list_all_iff)
qed

theorem calculate_metrics_unknown_label_witness:
  "calculate_metrics ([1 \<mapsto> \<lparr>traj_id = 1, trajectory = [\<lparr>loc_x = 0, loc_y = 0, loc_z = 5\<rparr>]\<rparr>]) [(\<lparr>pred_id = 1, pred_label = ''car'', predicted_trajectory = [\<lparr>loc_x = 3, loc_y = -4, loc_z = 0\<rparr>]\<rparr>)\<lparr>pred_label := ''tree''\<rparr>] = Inl ValueError"
  by (rule calculate_metrics_unknown_label) (simp_all add: pred_is_vehicle_def pred_is_person_def vehicle_labels_def)

theorem calculate_metrics_missing_ground_witness:
  "calculate_metrics Map.empty [\<lparr>pred_id = 1, pred_label = ''car'', predicted_trajectory = [\<lparr>loc_x = 3, loc_y = -4, loc_z = 0\<rparr>]\<rparr>] = Inl KeyError"
  by (rule calculate_metrics_missing_ground) (simp_all add: pred_is_vehicle_def)

theorem calculate_metrics_empty_prediction_witness:
  "calculate_metrics ([1 \<mapsto> \<lparr>traj_id = 1, trajectory = [\<lparr>loc_x = 0, loc_y = 0, loc_z = 5\<rparr>]\<rparr>]) [(\<lparr>pred_id = 1, pred_label = ''car'', predicted_trajectory = [\<lparr>loc_x = 3, loc_y = -4, loc_z = 0\<rparr>]\<rparr>)\<lparr>predicted_trajectory := []\<rparr>] = Inl ZeroDivisionError"
  by (rule calculate_metrics_empty_prediction) (simp_all add: pred_is_vehicle_def vehicle_labels_def)

end
