(* ===== verification/PredictionEval.thy ===== *)
theory PredictionEval
  imports TrajectoryMetrics
begin

text \<open>
  The prediction evaluator of \<open>src/pylot/prediction/prediction_eval_operator.py\<close>
  (class \<open>PredictionEvalOperator\<close>), the spec's alignment driver. Three FIFO
  deques buffer the pose, ground-truth tracking and prediction messages that
  \<open>on_data\<close> receives; each watermark pops one of each, scores the oldest
  buffered prediction batch against the current ground truth once
  \<open>prediction_num_future_steps\<close> (\<open>W\<close>) batches are buffered, and appends the
  new batch to the bounded deque \<open>_predictions\<close> (\<open>maxlen = W\<close>). The
  conversion to world coordinates is a parameter \<open>tw\<close> (the pose's transform
  applied to a location). A handler that raises after it popped a deque leaves
  the deque popped, so \<open>pe_on_watermark\<close> returns the outcome together with
  the state as the exception leaves it.
\<close>

section \<open>State and inputs\<close>

record 'pose pe_operator =
  prediction_msgs :: "obstacle_prediction list list"
  tracking_msgs :: "obstacle_trajectory list list"
  pose_msgs :: "'pose list"
  predictions :: "obstacle_prediction list list"

definition pe_init :: "'pose pe_operator" where
  "pe_init = \<lparr>prediction_msgs = [], tracking_msgs = [], pose_msgs = [], predictions = []\<rparr>"

text \<open>The payloads \<open>on_data\<close> tells apart with \<open>isinstance\<close>; \<open>OtherData\<close> is
  any other payload.\<close>

datatype 'pose pe_data =
    PoseData 'pose
  | TrackingData "obstacle_trajectory list"
  | PredictionData "obstacle_prediction list"
  | OtherData

section \<open>Handlers\<close>

definition on_prediction_update ::
  "obstacle_prediction list \<Rightarrow> 'pose pe_operator \<Rightarrow> 'pose pe_operator" where
  "on_prediction_update d s = s\<lparr>prediction_msgs := prediction_msgs s @ [d]\<rparr>"

definition on_tracking_update ::
  "obstacle_trajectory list \<Rightarrow> 'pose pe_operator \<Rightarrow> 'pose pe_operator" where
  "on_tracking_update d s = s\<lparr>tracking_msgs := tracking_msgs s @ [d]\<rparr>"

definition on_pose_update :: "'pose \<Rightarrow> 'pose pe_operator \<Rightarrow> 'pose pe_operator" where
  "on_pose_update d s = s\<lparr>pose_msgs := pose_msgs s @ [d]\<rparr>"

fun pe_on_data :: "'pose pe_data \<Rightarrow> 'pose pe_operator \<Rightarrow> 'pose pe_operator result" where
  "pe_on_data (PoseData p) s = Inr (on_pose_update p s)"
| "pe_on_data (TrackingData t) s = Inr (on_tracking_update t s)"
| "pe_on_data (PredictionData d) s = Inr (on_prediction_update d s)"
| "pe_on_data OtherData s = Inl ValueError"

text \<open>\<open>to_world_coordinates\<close> of a ground-truth track and of a prediction, and
  the dictionary \<open>{obstacle_trajectory.id: obstacle_trajectory}\<close> (a later
  track with the same id wins).\<close>

definition trajectory_to_world ::
  "('pose \<Rightarrow> location \<Rightarrow> location) \<Rightarrow> 'pose \<Rightarrow> obstacle_trajectory \<Rightarrow> obstacle_trajectory" where
  "trajectory_to_world tw pose ot = ot\<lparr>trajectory := map (tw pose) (trajectory ot)\<rparr>"

definition prediction_to_world ::
  "('pose \<Rightarrow> location \<Rightarrow> location) \<Rightarrow> 'pose \<Rightarrow> obstacle_prediction \<Rightarrow> obstacle_prediction" where
  "prediction_to_world tw pose op =
     op\<lparr>predicted_trajectory := map (tw pose) (predicted_trajectory op)\<rparr>"

definition ground_dict :: "obstacle_trajectory list \<Rightarrow> (int \<rightharpoonup> obstacle_trajectory)" where
  "ground_dict ots = foldl (\<lambda>m ot. m(traj_id ot \<mapsto> ot)) Map.empty ots"

text \<open>\<open>on_watermark\<close>, lines 67--98. The outcome is \<open>Inr None\<close> when nothing
  was scored (top watermark or warm-up), \<open>Inr (Some rows)\<close> with the logged
  rows when the oldest buffered batch was scored, \<open>Inl e\<close> when it raised.\<close>

definition pe_on_watermark ::
  "('pose \<Rightarrow> location \<Rightarrow> location) \<Rightarrow> nat \<Rightarrow> timestamp \<Rightarrow> 'pose pe_operator
   \<Rightarrow> ((string \<times> rat) list option) result \<times> 'pose pe_operator" where
  "pe_on_watermark tw W t s =
     (if is_top t then (Inr None, s)
      else
        case popleft (tracking_msgs s) of
          Inl e \<Rightarrow> (Inl e, s)
        | Inr (tracking_msg, trs) \<Rightarrow>
            let s1 = s\<lparr>tracking_msgs := trs\<rparr> in
            case popleft (prediction_msgs s1) of
              Inl e \<Rightarrow> (Inl e, s1)
            | Inr (prediction_msg, prs) \<Rightarrow>
                let s2 = s1\<lparr>prediction_msgs := prs\<rparr> in
                case popleft (pose_msgs s2) of
                  Inl e \<Rightarrow> (Inl e, s2)
                | Inr (pose, poses) \<Rightarrow>
                    let s3 = s2\<lparr>pose_msgs := poses\<rparr>;
                        batch = map (prediction_to_world tw pose) prediction_msg;
                        s4 = s3\<lparr>predictions := append_bounded W (predictions s3) batch\<rparr>
                    in
                    if length (predictions s3) = W then
                      (case predictions s3 of
                         [] \<Rightarrow> (Inl IndexError, s3)
                       | oldest # _ \<Rightarrow>
                           (case calculate_metrics
                                   (ground_dict (map (trajectory_to_world tw pose) tracking_msg)) oldest of
                              Inl e \<Rightarrow> (Inl e, s3)
                            | Inr rows \<Rightarrow> (Inr (Some rows), s4)))
                    else (Inr None, s4))"

section \<open>Runs\<close>

datatype 'pose pe_event = DataEvent "'pose pe_data" | WatermarkEvent timestamp

text \<open>A run: the outcomes of the watermarks, the final state, and the exception
  that stopped it, if any.\<close>

fun pe_run ::
  "('pose \<Rightarrow> location \<Rightarrow> location) \<Rightarrow> nat \<Rightarrow> 'pose pe_operator \<Rightarrow> 'pose pe_event list
   \<Rightarrow> (string \<times> rat) list option list \<times> 'pose pe_operator \<times> py_error option" where
  "pe_run tw W s [] = ([], s, None)"
| "pe_run tw W s (DataEvent d # es) =
     (case pe_on_data d s of
        Inl e \<Rightarrow> ([], s, Some e)
      | Inr s' \<Rightarrow> pe_run tw W s' es)"
| "pe_run tw W s (WatermarkEvent t # es) =
     (case pe_on_watermark tw W t s of
        (Inl e, s') \<Rightarrow> ([], s', Some e)
      | (Inr r, s') \<Rightarrow> (case pe_run tw W s' es of (outs, s'', err) \<Rightarrow> (r # outs, s'', err)))"

fun data_watermarks :: "'pose pe_event list \<Rightarrow> nat" where
  "data_watermarks [] = 0"
| "data_watermarks (WatermarkEvent t # es) =
     (if is_top t then data_watermarks es else Suc (data_watermarks es))"
| "data_watermarks (DataEvent _ # es) = data_watermarks es"

definition scored :: "(string \<times> rat) list option list \<Rightarrow> nat" where
  "scored outs = length (filter (\<lambda>r. r \<noteq> None) outs)"

section \<open>Lemmas\<close>

lemma pe_on_data_predictions:
  "pe_on_data d s = Inr s' \<Longrightarrow> predictions s' = predictions s"
  by (cases d) (auto simp: on_pose_update_def on_tracking_update_def on_prediction_update_def)

lemma pe_on_watermark_top [simp]: "pe_on_watermark tw W Top s = (Inr None, s)"
  by (simp add: pe_on_watermark_def)

text \<open>A successful watermark that is not top: it scored exactly when the deque
  was full, and the deque grew by one up to \<open>W\<close>.\<close>

lemma pe_on_watermark_success:
  assumes "pe_on_watermark tw W t s = (Inr r, s')" and "\<not> is_top t"
  shows "(r \<noteq> None \<longleftrightarrow> length (predictions s) = W)
         \<and> length (predictions s') = min W (Suc (length (predictions s)))"
  using assms
  by (auto simp: pe_on_watermark_def Let_def split: sum.splits prod.splits list.splits if_splits)

lemma pe_on_watermark_top_id:
  "is_top t \<Longrightarrow> pe_on_watermark tw W t s = (Inr None, s)"
  by (simp add: pe_on_watermark_def)

lemma pe_run_scoring:
  assumes "pe_run tw W s es = (outs, s', None)" and "length (predictions s) \<le> W"
  shows "scored outs = data_watermarks es - (W - length (predictions s))
         \<and> length (predictions s') = min W (length (predictions s) + data_watermarks es)"
  using assms
proof (induction tw W s es arbitrary: outs rule: pe_run.induct)
  case (1 tw W s)
  then show ?case by (simp add: scored_def)
next
  case (2 tw W s d es)
  then obtain s1 where "pe_on_data d s = Inr s1" and "pe_run tw W s1 es = (outs, s', None)"
    by (auto split: sum.splits)
  with 2 show ?case by (simp add: pe_on_data_predictions)
next
  case (3 tw W s t es)
  obtain r s1 where wm: "pe_on_watermark tw W t s = (Inr r, s1)"
    using "3.prems"(1) by (auto split: prod.splits sum.splits)
  obtain outs1 where run: "pe_run tw W s1 es = (outs1, s', None)" and outs: "outs = r # outs1"
    using "3.prems"(1) wm by (auto split: prod.splits)
  show ?case
  proof (cases "is_top t")
    case True
    with wm have "r = None" "s1 = s" by (simp_all add: pe_on_watermark_top_id)
    with "3.IH" [OF wm [symmetric] refl run] "3.prems"(2) outs True show ?thesis
      by (simp add: scored_def)
  next
    case False
    from pe_on_watermark_success [OF wm False]
    have r: "r \<noteq> None \<longleftrightarrow> length (predictions s) = W"
      and l1: "length (predictions s1) = min W (Suc (length (predictions s)))" by auto
    with "3.prems"(2) have "length (predictions s1) \<le> W" by simp
    with "3.IH" [OF wm [symmetric] refl run] have ih:
      "scored outs1 = data_watermarks es - (W - length (predictions s1))
       \<and> length (predictions s') = min W (length (predictions s1) + data_watermarks es)"
      by simp
    show ?thesis
      using ih r l1 outs False "3.prems"(2) by (auto simp: scored_def)
  qed
qed

lemma pe_on_watermark_bounded:
  assumes "pe_on_watermark tw W t s = (r, s')" and "length (predictions s) \<le> W"
  shows "length (predictions s') \<le> W"
  using assms
  by (auto simp: pe_on_watermark_def Let_def split: sum.splits prod.splits list.splits if_splits)

lemma pe_run_bounded:
  "pe_run tw W s es = (outs, s', err) \<Longrightarrow> length (predictions s) \<le> W \<Longrightarrow> length (predictions s') \<le> W"
proof (induction tw W s es arbitrary: outs rule: pe_run.induct)
  case (1 tw W s)
  then show ?case by simp
next
  case (2 tw W s d es)
  then show ?case by (auto split: sum.splits dest: pe_on_data_predictions)
next
  case (3 tw W s t es)
  obtain r s1 where wm: "pe_on_watermark tw W t s = (r, s1)" by fastforce
  from pe_on_watermark_bounded [OF wm "3.prems"(2)] have b1: "length (predictions s1) \<le> W" .
  show ?case
  proof (cases r)
    case (Inl e)
    with wm "3.prems"(1) b1 show ?thesis by simp
  next
    case (Inr r')
    with wm "3.prems"(1) obtain outs1 where "pe_run tw W s1 es = (outs1, s', err)"
      by (auto split: prod.splits)
    from "3.IH" [OF wm [symmetric] Inr this b1] show ?thesis .
  qed
qed


section \<open>Properties\<close>


text \<open>C21 (number of scoring passes): after \<open>n\<close> data watermarks from the initial
  state without an exception, \<open>_calculate_metrics\<close> has run \<open>n - W\<close> times
  (0 when \<open>n \<le> W\<close>), and \<open>_predictions\<close> holds \<open>min W n\<close> batches.\<close>

theorem scoring_count:
  assumes "pe_run tw W pe_init es = (outs, s, None)"
  shows "scored outs = data_watermarks es - W
         \<and> length (predictions s) = min W (data_watermarks es)"
  using pe_run_scoring [OF assms] by (simp add: pe_init_def)

text \<open>C22 (horizon 0): with \<open>prediction_num_future_steps = 0\<close> the deque
  \<open>deque(maxlen=0)\<close> is always empty, so its length always equals the horizon
  and \<open>self._predictions[0]\<close> raises \<open>IndexError\<close> on every data watermark
  whose three messages are present.\<close>

theorem horizon_zero_crashes:
  assumes "\<not> is_top t" and "tracking_msgs s \<noteq> []" and "prediction_msgs s \<noteq> []"
    and "pose_msgs s \<noteq> []" and "predictions s = []"
  shows "fst (pe_on_watermark tw 0 t s) = Inl IndexError"
  using assms
  by (auto simp: pe_on_watermark_def Let_def neq_Nil_conv)

text \<open>C23 (starved stream): when the tracking deque holds a message but the
  prediction deque is empty, \<open>on_watermark\<close> raises \<open>IndexError\<close> after having
  popped the tracking message, which is lost; the three deques are no longer
  aligned.\<close>

theorem starved_prediction_consumes_tracking:
  assumes "\<not> is_top t" and "tracking_msgs s = tr # trs" and "prediction_msgs s = []"
  shows "pe_on_watermark tw W t s = (Inl IndexError, s\<lparr>tracking_msgs := trs\<rparr>)"
  using assms by (simp add: pe_on_watermark_def)

text \<open>C24 (bounded prediction deque): on every run from the initial state, also
  one stopped by an exception, \<open>_predictions\<close> never holds more than \<open>W\<close>
  batches.\<close>

theorem predictions_bounded:
  assumes "pe_run tw W pe_init es = (outs, s, err)"
  shows "length (predictions s) \<le> W"
  using pe_run_bounded [OF assms] by (simp add: pe_init_def)

section \<open>Witnesses\<close>

lemmas pe_eval_simps = pe_init_def pe_on_watermark_def Let_def on_pose_update_def
  on_tracking_update_def on_prediction_update_def append_bounded_def calculate_metrics_def
  metric_rows_def sums_init_def ground_dict_def


theorem scoring_count_witness:
  "pe_run (\<lambda>(p::nat) l. l) 1 pe_init [DataEvent (PoseData (0::nat)), DataEvent (TrackingData []), DataEvent (PredictionData []), WatermarkEvent (TS [1]), DataEvent (PoseData 0), DataEvent (TrackingData []), DataEvent (PredictionData []), WatermarkEvent (TS [2])] = ([None, Some []], \<lparr>prediction_msgs = [], tracking_msgs = [], pose_msgs = [], predictions = [[]]\<rparr>, None)
   \<and> scored [None, Some ([] :: (string \<times> rat) list)] = 1"
proof -
  have run: "pe_run (\<lambda>(p::nat) l. l) 1 pe_init [DataEvent (PoseData (0::nat)), DataEvent (TrackingData []), DataEvent (PredictionData []), WatermarkEvent (TS [1]), DataEvent (PoseData 0), DataEvent (TrackingData []), DataEvent (PredictionData []), WatermarkEvent (TS [2])] = ([None, Some []], \<lparr>prediction_msgs = [], tracking_msgs = [], pose_msgs = [], predictions = [[]]\<rparr>, None)"
    by (simp add: pe_eval_simps)
  from scoring_count [OF run] run show ?thesis by simp
qed

theorem horizon_zero_crashes_witness:
  "fst (pe_on_watermark (\<lambda>(p::nat) l. l) 0 (TS [1])
     \<lparr>prediction_msgs = [[]], tracking_msgs = [[]], pose_msgs = [0], predictions = []\<rparr>)
   = Inl IndexError"
  by (rule horizon_zero_crashes) simp_all

theorem starved_prediction_consumes_tracking_witness:
  "pe_on_watermark (\<lambda>(p::nat) l. l) 1 (TS [1])
     \<lparr>prediction_msgs = [], tracking_msgs = [[]], pose_msgs = [0], predictions = []\<rparr>
   = (Inl IndexError, \<lparr>prediction_msgs = [], tracking_msgs = [], pose_msgs = [0], predictions = []\<rparr>)"
proof -
  have "pe_on_watermark (\<lambda>(p::nat) l. l) 1 (TS [1])
     \<lparr>prediction_msgs = [], tracking_msgs = [[]], pose_msgs = [0], predictions = []\<rparr>
   = (Inl IndexError, \<lparr>prediction_msgs = [], tracking_msgs = [[]], pose_msgs = [0::nat], predictions = []\<rparr>
        \<lparr>tracking_msgs := []\<rparr>)"
    by (rule starved_prediction_consumes_tracking) simp_all
  then show ?thesis by simp
qed

theorem predictions_bounded_witness:
  "pe_run (\<lambda>(p::nat) l. l) 1 pe_init [WatermarkEvent (TS [1])] = ([], pe_init, Some IndexError)
   \<and> length (predictions (pe_init :: nat pe_operator)) \<le> 1"
proof -
  have run: "pe_run (\<lambda>(p::nat) l. l) 1 pe_init [WatermarkEvent (TS [1])] = ([], pe_init, Some IndexError)"
    by (simp add: pe_eval_simps)
  from predictions_bounded [OF run] run show ?thesis by simp
qed

end
