(* ===== verification/Synchronizer.thy ===== *)
theory Synchronizer
  imports Prelude
begin

text \<open>
  The synchronisation contract the operators rely on, modelled from the spec
  (sections 4.1 and 4.3): the erdos runtime that implements it is not part of
  the repository. A \<open>PerStreamBuffer\<close> is an ordered mapping from timestamps
  to records (here a list sorted by strictly increasing key) with
  \<open>push\<close>, \<open>pop\<close> and \<open>prune_older_than\<close>; a \<open>StreamSynchronizer\<close> holds
  one buffer per stream, the per-key readiness of the streams, and the tuples
  handed to the consumer in order. Every operation holds the synchroniser's
  lock for its whole body (spec section 5), so a run is a sequence of events;
  the interleaving of producers is the order of that sequence.
\<close>

section \<open>Errors\<close>

datatype sync_error =
    DuplicateKeyError | NotFoundError | DuplicateReadyError | UnknownStreamError

section \<open>PerStreamBuffer\<close>

type_synonym 'r stream_buffer = "(timestamp \<times> 'r) list"

definition buffer_ok :: "'r stream_buffer \<Rightarrow> bool" where
  "buffer_ok b \<longleftrightarrow> sorted (map fst b) \<and> distinct (map fst b)"

text \<open>\<open>push(key, record)\<close>: \<open>DuplicateKeyError\<close> when the key holds a record.\<close>

definition buffer_push ::
  "timestamp \<Rightarrow> 'r \<Rightarrow> 'r stream_buffer \<Rightarrow> sync_error + 'r stream_buffer" where
  "buffer_push k r b =
     (if k \<in> set (map fst b) then Inl DuplicateKeyError else Inr (insort_key fst (k, r) b))"

text \<open>\<open>pop(key)\<close>: the record and the buffer without it, \<open>NotFoundError\<close> when
  absent.\<close>

definition buffer_pop ::
  "timestamp \<Rightarrow> 'r stream_buffer \<Rightarrow> sync_error + ('r \<times> 'r stream_buffer)" where
  "buffer_pop k b =
     (case map_of b k of
        None \<Rightarrow> Inl NotFoundError
      | Some r \<Rightarrow> Inr (r, filter (\<lambda>e. fst e \<noteq> k) b))"

text \<open>\<open>prune_older_than(key)\<close>: drop the entries with a smaller key from the front,
  returning how many were dropped.\<close>

definition buffer_prune_older_than ::
  "timestamp \<Rightarrow> 'r stream_buffer \<Rightarrow> nat \<times> 'r stream_buffer" where
  "buffer_prune_older_than k b =
     (length (takeWhile (\<lambda>e. fst e < k) b), dropWhile (\<lambda>e. fst e < k) b)"

section \<open>StreamSynchronizer\<close>

record 'r synchronizer =
  sync_buffers :: "'r stream_buffer list"
  sync_ready :: "timestamp \<rightharpoonup> nat list"
  sync_out :: "(timestamp \<times> 'r list) list"

definition sync_init :: "nat \<Rightarrow> 'r synchronizer" where
  "sync_init n = \<lparr>sync_buffers = replicate n [], sync_ready = Map.empty, sync_out = []\<rparr>"

text \<open>Fetch the key's record from every buffer, in stream order.\<close>

fun pop_all ::
  "timestamp \<Rightarrow> 'r stream_buffer list \<Rightarrow> sync_error + ('r list \<times> 'r stream_buffer list)" where
  "pop_all k [] = Inr ([], [])"
| "pop_all k (b # bs) =
     (case buffer_pop k b of
        Inl e \<Rightarrow> Inl e
      | Inr (r, b') \<Rightarrow>
          (case pop_all k bs of
             Inl e \<Rightarrow> Inl e
           | Inr (rs, bs') \<Rightarrow> Inr (r # rs, b' # bs')))"

text \<open>A producer pushes a record on its stream's buffer.\<close>

definition sync_push :: "nat \<Rightarrow> timestamp \<Rightarrow> 'r \<Rightarrow> 'r synchronizer \<Rightarrow> sync_error + 'r synchronizer" where
  "sync_push i k r s =
     (if length (sync_buffers s) \<le> i then Inl UnknownStreamError
      else case buffer_push k r (sync_buffers s ! i) of
             Inl e \<Rightarrow> Inl e
           | Inr b \<Rightarrow> Inr (s\<lparr>sync_buffers := (sync_buffers s)[i := b]\<rparr>))"

text \<open>The streams that have reported a key still pending.\<close>

definition ready_ids :: "'r synchronizer \<Rightarrow> timestamp \<Rightarrow> nat list" where
  "ready_ids s k = (case sync_ready s k of None \<Rightarrow> [] | Some r \<Rightarrow> r)"

text \<open>\<open>on_stream_ready(stream_id, key)\<close>: the top key is accepted and discarded; a
  second report of a stream for a pending key is \<open>DuplicateReadyError\<close>; the
  report completing the key pops every buffer and emits the tuple.\<close>

definition on_stream_ready :: "nat \<Rightarrow> timestamp \<Rightarrow> 'r synchronizer \<Rightarrow> sync_error + 'r synchronizer" where
  "on_stream_ready i k s =
     (if length (sync_buffers s) \<le> i then Inl UnknownStreamError
      else if is_top k then Inr s
      else
        let r = ready_ids s k in
        if i \<in> set r then Inl DuplicateReadyError
        else if Suc (length r) = length (sync_buffers s) then
          (case pop_all k (sync_buffers s) of
             Inl e \<Rightarrow> Inl e
           | Inr (rs, bs) \<Rightarrow>
               Inr (s\<lparr>sync_buffers := bs, sync_ready := (sync_ready s)(k := None),
                      sync_out := sync_out s @ [(k, rs)]\<rparr>))
        else Inr (s\<lparr>sync_ready := (sync_ready s)(k \<mapsto> i # r)\<rparr>))"

datatype 'r sync_event = Push nat timestamp 'r | Ready nat timestamp

fun sync_step :: "'r sync_event \<Rightarrow> 'r synchronizer \<Rightarrow> sync_error + 'r synchronizer" where
  "sync_step (Push i k r) s = sync_push i k r s"
| "sync_step (Ready i k) s = on_stream_ready i k s"

fun sync_run :: "'r synchronizer \<Rightarrow> 'r sync_event list \<Rightarrow> sync_error + 'r synchronizer" where
  "sync_run s [] = Inr s"
| "sync_run s (e # es) = (case sync_step e s of Inl err \<Rightarrow> Inl err | Inr s' \<Rightarrow> sync_run s' es)"

text \<open>The readiness reports and the pushes of a run, as (stream, key) pairs.\<close>

fun ready_signals :: "'r sync_event list \<Rightarrow> (nat \<times> timestamp) list" where
  "ready_signals [] = []"
| "ready_signals (Ready i k # es) = (i, k) # ready_signals es"
| "ready_signals (Push _ _ _ # es) = ready_signals es"

fun push_signals :: "'r sync_event list \<Rightarrow> (nat \<times> timestamp) list" where
  "push_signals [] = []"
| "push_signals (Push i k _ # es) = (i, k) # push_signals es"
| "push_signals (Ready _ _ # es) = push_signals es"

text \<open>A key is complete once every one of the \<open>n\<close> streams has reported it.\<close>

definition complete :: "nat \<Rightarrow> (nat \<times> timestamp) list \<Rightarrow> timestamp \<Rightarrow> bool" where
  "complete n sigs k \<longleftrightarrow> (\<forall>i < n. (i, k) \<in> set sigs)"

text \<open>What the readiness map and the output say after the reports \<open>sigs\<close>: a
  pending key records exactly the streams that reported it, a complete key has
  been emitted once and forgotten, the top key is never recorded or emitted.\<close>

definition ready_inv :: "nat \<Rightarrow> (nat \<times> timestamp) list \<Rightarrow> 'r synchronizer \<Rightarrow> bool" where
  "ready_inv n sigs s \<longleftrightarrow>
     length (sync_buffers s) = n \<and> (\<forall>(i, k) \<in> set sigs. i < n)
     \<and> (\<forall>k. if is_top k \<or> complete n sigs k then sync_ready s k = None
            else distinct (ready_ids s k) \<and> set (ready_ids s k) = {i. (i, k) \<in> set sigs})
     \<and> (\<forall>k. count_list (map fst (sync_out s)) k
              = (if \<not> is_top k \<and> complete n sigs k then 1 else 0))"

text \<open>The producers' side of the contract: stream ids in range, no stream pushes or
  reports a key twice, and a stream reports a key only after pushing its record
  (the top key needs no record).\<close>

fun pushed_first :: "(nat \<times> timestamp) list \<Rightarrow> 'r sync_event list \<Rightarrow> bool" where
  "pushed_first P [] = True"
| "pushed_first P (Push i k r # es) = pushed_first ((i, k) # P) es"
| "pushed_first P (Ready i k # es) = ((is_top k \<or> (i, k) \<in> set P) \<and> pushed_first P es)"

definition well_formed_run :: "nat \<Rightarrow> 'r sync_event list \<Rightarrow> bool" where
  "well_formed_run n es \<longleftrightarrow>
     list_all (\<lambda>(i, k). i < n) (ready_signals es) \<and> list_all (\<lambda>(i, k). i < n) (push_signals es)
     \<and> distinct (ready_signals es) \<and> distinct (push_signals es) \<and> pushed_first [] es"

text \<open>The buffers hold the pushed records of the keys not yet emitted; every emitted
  tuple holds, for each stream, the record that stream pushed for the key.\<close>

definition buf_inv :: "nat \<Rightarrow> 'r sync_event list \<Rightarrow> 'r synchronizer \<Rightarrow> bool" where
  "buf_inv n es s \<longleftrightarrow>
     (\<forall>i < n. buffer_ok (sync_buffers s ! i)
        \<and> set (map fst (sync_buffers s ! i))
            = {k. (i, k) \<in> set (push_signals es) \<and> (is_top k \<or> \<not> complete n (ready_signals es) k)}
        \<and> (\<forall>k r. map_of (sync_buffers s ! i) k = Some r \<longrightarrow> Push i k r \<in> set es))
     \<and> (\<forall>(k, rs) \<in> set (sync_out s). length rs = n \<and> (\<forall>j < n. Push j k (rs ! j) \<in> set es))"

section \<open>Buffer lemmas\<close>

lemma map_of_insort_key:
  "k \<notin> set (map fst b) \<Longrightarrow> map_of (insort_key fst (k, r) b) = (map_of b)(k \<mapsto> r)"
  by (induction b) (auto simp: fun_eq_iff)

lemma buffer_push_ok:
  "buffer_ok b \<Longrightarrow> buffer_push k r b = Inr b' \<Longrightarrow> buffer_ok b'"
  by (auto simp: buffer_ok_def buffer_push_def sorted_insort_key distinct_insort_key
      split: if_splits)

lemma buffer_push_keys:
  "buffer_push k r b = Inr b' \<Longrightarrow> set (map fst b') = insert k (set (map fst b))"
  by (auto simp: buffer_push_def set_insort_key split: if_splits)

lemma buffer_pop_ok:
  "buffer_ok b \<Longrightarrow> buffer_pop k b = Inr (r, b') \<Longrightarrow> buffer_ok b'"
  by (auto simp: buffer_ok_def buffer_pop_def sorted_filter distinct_map_filter
      split: option.splits)

lemma buffer_pop_keys:
  "buffer_pop k b = Inr (r, b') \<Longrightarrow> set (map fst b') = set (map fst b) - {k}"
  by (auto simp: buffer_pop_def split: option.splits)

lemma buffer_pop_Inr_iff:
  "(\<exists>r b'. buffer_pop k b = Inr (r, b')) \<longleftrightarrow> k \<in> set (map fst b)"
proof
  assume "\<exists>r b'. buffer_pop k b = Inr (r, b')"
  then obtain r where "map_of b k = Some r" by (auto simp: buffer_pop_def split: option.splits)
  then show "k \<in> set (map fst b)" by (force dest: map_of_SomeD)
next
  assume "k \<in> set (map fst b)"
  then have "map_of b k \<noteq> None" by (simp add: map_of_eq_None_iff)
  then obtain r where "map_of b k = Some r" by blast
  then show "\<exists>r b'. buffer_pop k b = Inr (r, b')" by (simp add: buffer_pop_def)
qed

section \<open>Run lemmas\<close>

lemma sync_run_append:
  "sync_run s (es @ es') = (case sync_run s es of Inl err \<Rightarrow> Inl err | Inr s' \<Rightarrow> sync_run s' es')"
  by (induction s es rule: sync_run.induct) (auto split: sum.splits)

lemma sync_run_snoc_Inr:
  "sync_run s (es @ [e]) = Inr s' \<longleftrightarrow> (\<exists>s1. sync_run s es = Inr s1 \<and> sync_step e s1 = Inr s')"
  by (auto simp: sync_run_append split: sum.splits)

lemma ready_signals_append [simp]: "ready_signals (es @ es') = ready_signals es @ ready_signals es'"
  by (induction es rule: ready_signals.induct) simp_all

lemma push_signals_append [simp]: "push_signals (es @ es') = push_signals es @ push_signals es'"
  by (induction es rule: push_signals.induct) simp_all

lemma pop_all_length:
  "pop_all k bs = Inr (rs, bs') \<Longrightarrow> length bs' = length bs \<and> length rs = length bs"
  by (induction k bs arbitrary: rs bs' rule: pop_all.induct) (auto split: sum.splits)

text \<open>The report of stream \<open>i\<close> completes a key exactly when it is the last one
  missing.\<close>

lemma complete_snoc:
  assumes "distinct r" and "set r = {j. (j, k) \<in> set sigs}" and "\<forall>(j, k') \<in> set sigs. j < n"
    and "i < n" and "i \<notin> set r"
  shows "complete n (sigs @ [(i, k)]) k \<longleftrightarrow> Suc (length r) = n"
proof -
  let ?A = "insert i (set r)"
  have sub: "?A \<subseteq> {0..<n}" using assms(2-4) by auto
  have card: "card ?A = Suc (length r)" using assms(1,5) by (simp add: distinct_card)
  have "complete n (sigs @ [(i, k)]) k \<longleftrightarrow> {0..<n} \<subseteq> ?A"
    using assms(2) by (auto simp: complete_def)
  also have "\<dots> \<longleftrightarrow> ?A = {0..<n}" using sub by blast
  also have "\<dots> \<longleftrightarrow> card ?A = n"
  proof
    assume "card ?A = n"
    then show "?A = {0..<n}" using sub by (intro card_subset_eq) simp_all
  qed simp
  finally show ?thesis using card by simp
qed

lemma complete_append: "complete n sigs k \<Longrightarrow> complete n (sigs @ sigs') k"
  by (simp add: complete_def)

lemma complete_other_key:
  "k' \<noteq> k \<Longrightarrow> complete n (sigs @ [(i, k)]) k' \<longleftrightarrow> complete n sigs k'"
  by (simp add: complete_def)

section \<open>The readiness invariant\<close>

lemma sync_init_ready_inv: "0 < n \<Longrightarrow> ready_inv n [] (sync_init n)"
  by (auto simp: ready_inv_def sync_init_def complete_def ready_ids_def)

lemma ready_ids_buffers [simp]: "ready_ids (s\<lparr>sync_buffers := b\<rparr>) = ready_ids s"
  by (simp add: ready_ids_def fun_eq_iff)

lemma push_ready_inv:
  assumes "sync_push i k r s = Inr s'" and "ready_inv n sigs s"
  shows "ready_inv n sigs s'"
proof -
  from assms(1) obtain b where s': "s' = s\<lparr>sync_buffers := (sync_buffers s)[i := b]\<rparr>"
    by (auto simp: sync_push_def split: if_splits sum.splits)
  from assms(2) show ?thesis unfolding ready_inv_def s' by simp
qed

lemma on_stream_ready_valid:
  "on_stream_ready i k s = Inr s' \<Longrightarrow> i < length (sync_buffers s)"
  by (simp add: on_stream_ready_def split: if_splits)

lemma ready_step_inv:
  assumes step: "on_stream_ready i k s = Inr s'" and inv: "ready_inv n sigs s"
    and fresh: "(i, k) \<notin> set sigs"
  shows "ready_inv n (sigs @ [(i, k)]) s'"
proof -
  have len: "length (sync_buffers s) = n" and ids: "\<forall>(j, k') \<in> set sigs. j < n"
    and rd: "\<And>k'. if is_top k' \<or> complete n sigs k' then sync_ready s k' = None
                 else distinct (ready_ids s k') \<and> set (ready_ids s k') = {j. (j, k') \<in> set sigs}"
    and cnt: "\<And>k'. count_list (map fst (sync_out s)) k'
                 = (if \<not> is_top k' \<and> complete n sigs k' then 1 else 0)"
    using inv unfolding ready_inv_def by blast+
  have i: "i < n" using on_stream_ready_valid [OF step] len by simp
  have ids': "\<forall>(j, k') \<in> set (sigs @ [(i, k)]). j < n" using ids i by auto
  have other: "\<And>k'. k' \<noteq> k \<Longrightarrow> complete n (sigs @ [(i, k)]) k' = complete n sigs k'"
    by (rule complete_other_key)
  show ?thesis
  proof (cases "is_top k")
    case True
    with step have s': "s' = s" by (simp add: on_stream_ready_def split: if_splits)
    show ?thesis
      unfolding ready_inv_def
    proof (intro conjI allI)
      fix k'
      show "if is_top k' \<or> complete n (sigs @ [(i, k)]) k' then sync_ready s' k' = None
            else distinct (ready_ids s' k')
                 \<and> set (ready_ids s' k') = {j. (j, k') \<in> set (sigs @ [(i, k)])}"
        using rd [of k'] other [of k'] True s' by (cases "k' = k") auto
      show "count_list (map fst (sync_out s')) k'
            = (if \<not> is_top k' \<and> complete n (sigs @ [(i, k)]) k' then 1 else 0)"
        using cnt [of k'] other [of k'] True s' by (cases "k' = k") auto
    qed (use len ids' s' in simp_all)
  next
    case False
    have notc: "\<not> complete n sigs k" using fresh i by (auto simp: complete_def)
    let ?r = "ready_ids s k"
    have r: "distinct ?r" "set ?r = {j. (j, k) \<in> set sigs}" using rd [of k] False notc by auto
    have ir: "i \<notin> set ?r" using r(2) fresh by simp
    have c_iff: "complete n (sigs @ [(i, k)]) k \<longleftrightarrow> Suc (length ?r) = n"
      using complete_snoc [OF r ids i ir] .
    show ?thesis
    proof (cases "Suc (length ?r) = n")
      case True
      with step False ir len obtain rs bs where pop: "pop_all k (sync_buffers s) = Inr (rs, bs)"
        and s': "s' = s\<lparr>sync_buffers := bs, sync_ready := (sync_ready s)(k := None),
                      sync_out := sync_out s @ [(k, rs)]\<rparr>"
        by (auto simp: on_stream_ready_def Let_def split: if_splits sum.splits)
      have lb: "length bs = n" using pop_all_length [OF pop] len by simp
      have ck: "complete n (sigs @ [(i, k)]) k" using c_iff True by simp
      have rid: "\<And>k'. ready_ids s' k' = (if k' = k then [] else ready_ids s k')"
        by (simp add: ready_ids_def s')
      have srd: "\<And>k'. sync_ready s' k' = (if k' = k then None else sync_ready s k')"
        by (simp add: s')
      show ?thesis
        unfolding ready_inv_def
      proof (intro conjI allI)
        fix k'
        show "if is_top k' \<or> complete n (sigs @ [(i, k)]) k' then sync_ready s' k' = None
              else distinct (ready_ids s' k')
                   \<and> set (ready_ids s' k') = {j. (j, k') \<in> set (sigs @ [(i, k)])}"
          using rd [of k'] other [of k'] ck by (cases "k' = k") (simp_all add: rid srd)
        show "count_list (map fst (sync_out s')) k'
              = (if \<not> is_top k' \<and> complete n (sigs @ [(i, k)]) k' then 1 else 0)"
          using cnt [of k'] other [of k'] ck notc False s' by (cases "k' = k") auto
      qed (use lb s' ids' in simp_all)
    next
      case nc: False
      with step False ir len have s': "s' = s\<lparr>sync_ready := (sync_ready s)(k \<mapsto> i # ?r)\<rparr>"
        by (auto simp: on_stream_ready_def Let_def split: if_splits)
      have nck: "\<not> complete n (sigs @ [(i, k)]) k" using c_iff nc by simp
      have rid: "\<And>k'. ready_ids s' k' = (if k' = k then i # ?r else ready_ids s k')"
        by (simp add: ready_ids_def s')
      have srd: "\<And>k'. sync_ready s' k' = (if k' = k then Some (i # ?r) else sync_ready s k')"
        by (simp add: s')
      show ?thesis
        unfolding ready_inv_def
      proof (intro conjI allI)
        fix k'
        show "if is_top k' \<or> complete n (sigs @ [(i, k)]) k' then sync_ready s' k' = None
              else distinct (ready_ids s' k')
                   \<and> set (ready_ids s' k') = {j. (j, k') \<in> set (sigs @ [(i, k)])}"
          using rd [of k'] other [of k'] nck False r ir
          by (cases "k' = k") (auto simp: rid srd)
        show "count_list (map fst (sync_out s')) k'
              = (if \<not> is_top k' \<and> complete n (sigs @ [(i, k)]) k' then 1 else 0)"
          using cnt [of k'] other [of k'] nck notc s' by (cases "k' = k") auto
      qed (use len s' ids' in simp_all)
    qed
  qed
qed

lemma sync_run_ready_inv:
  "sync_run s0 es = Inr s \<Longrightarrow> ready_inv n sigs0 s0 \<Longrightarrow> distinct (sigs0 @ ready_signals es) \<Longrightarrow>
   ready_inv n (sigs0 @ ready_signals es) s"
proof (induction es arbitrary: s rule: rev_induct)
  case Nil
  then show ?case by simp
next
  case (snoc e es)
  from snoc.prems(1) obtain s1 where run: "sync_run s0 es = Inr s1" and st: "sync_step e s1 = Inr s"
    by (auto simp: sync_run_snoc_Inr)
  have "distinct (sigs0 @ ready_signals es)" using snoc.prems(3) by auto
  with snoc.IH [OF run snoc.prems(2)] have inv1: "ready_inv n (sigs0 @ ready_signals es) s1" .
  show ?case
  proof (cases e)
    case (Push i k r)
    with st inv1 show ?thesis by (simp add: push_ready_inv)
  next
    case (Ready i k)
    with snoc.prems(3) have "(i, k) \<notin> set (sigs0 @ ready_signals es)" by simp
    from ready_step_inv [OF _ inv1 this] st Ready show ?thesis by simp
  qed
qed

section \<open>Runs that never fail\<close>

lemma pushed_first_snoc:
  "pushed_first P (es @ [e]) \<longleftrightarrow>
     pushed_first P es
     \<and> (\<forall>i k. e = Ready i k \<longrightarrow> is_top k \<or> (i, k) \<in> set P \<union> set (push_signals es))"
proof (induction es arbitrary: P)
  case Nil
  then show ?case by (cases e) auto
next
  case (Cons x es)
  then show ?case by (cases x) auto
qed

lemma ready_pushed:
  "pushed_first P es \<Longrightarrow> (i, k) \<in> set (ready_signals es) \<Longrightarrow> \<not> is_top k \<Longrightarrow>
   (i, k) \<in> set P \<union> set (push_signals es)"
  by (induction P es rule: pushed_first.induct) auto

lemma well_formed_run_snoc:
  "well_formed_run n (es @ [e]) \<Longrightarrow> well_formed_run n es"
  by (auto simp: well_formed_run_def pushed_first_snoc)

lemma map_of_filter_key:
  "map_of (filter (\<lambda>e. fst e \<noteq> k) b) = (map_of b)(k := None)"
  by (induction b) (auto simp: fun_eq_iff)

lemma map_of_Some_key:
  assumes "k \<in> set (map fst b)"
  shows "map_of b k = Some (the (map_of b k))"
proof -
  from assms have "map_of b k \<noteq> None" by (simp add: map_of_eq_None_iff)
  then show ?thesis by simp
qed

lemma buffer_pop_present:
  assumes "k \<in> set (map fst b)"
  shows "buffer_pop k b = Inr (the (map_of b k), filter (\<lambda>e. fst e \<noteq> k) b)"
proof -
  from assms have "map_of b k \<noteq> None" by (simp add: map_of_eq_None_iff)
  then obtain r where "map_of b k = Some r" by blast
  then show ?thesis by (simp add: buffer_pop_def)
qed

lemma pop_all_present:
  "\<forall>b \<in> set bs. k \<in> set (map fst b) \<Longrightarrow>
   pop_all k bs = Inr (map (\<lambda>b. the (map_of b k)) bs, map (filter (\<lambda>e. fst e \<noteq> k)) bs)"
  by (induction bs) (simp_all add: buffer_pop_present)

lemma buf_invD:
  assumes "buf_inv n es s" and "j < n"
  shows "buffer_ok (sync_buffers s ! j)"
    and "set (map fst (sync_buffers s ! j))
           = {k. (j, k) \<in> set (push_signals es) \<and> (is_top k \<or> \<not> complete n (ready_signals es) k)}"
    and "map_of (sync_buffers s ! j) k = Some r \<Longrightarrow> Push j k r \<in> set es"
  using assms unfolding buf_inv_def by blast+

lemma buf_inv_outD:
  "buf_inv n es s \<Longrightarrow> (k, rs) \<in> set (sync_out s) \<Longrightarrow> length rs = n \<and> (\<forall>j < n. Push j k (rs ! j) \<in> set es)"
  unfolding buf_inv_def by blast

lemma push_step_buf:
  assumes inv: "buf_inv n es s" and i: "i < n" and len: "length (sync_buffers s) = n"
    and fresh: "(i, k) \<notin> set (push_signals es)"
    and notc: "is_top k \<or> \<not> complete n (ready_signals es) k"
  shows "\<exists>s'. sync_push i k r s = Inr s' \<and> buf_inv n (es @ [Push i k r]) s'"
proof -
  let ?b = "sync_buffers s ! i"
  have kb: "k \<notin> set (map fst ?b)" using buf_invD(2) [OF inv i] fresh by blast
  let ?b' = "insort_key fst (k, r) ?b"
  have push: "buffer_push k r ?b = Inr ?b'" using kb by (simp add: buffer_push_def)
  define s' where "s' = s\<lparr>sync_buffers := (sync_buffers s)[i := ?b']\<rparr>"
  have step: "sync_push i k r s = Inr s'" using push i len by (simp add: sync_push_def s'_def)
  have nth': "\<And>j. sync_buffers s' ! j = (if j = i then ?b' else sync_buffers s ! j)"
    using i len by (simp add: s'_def)
  have bufs: "buffer_ok (sync_buffers s' ! j)
      \<and> set (map fst (sync_buffers s' ! j)) = {k'. (j, k') \<in> set (push_signals (es @ [Push i k r]))
            \<and> (is_top k' \<or> \<not> complete n (ready_signals (es @ [Push i k r])) k')}
      \<and> (\<forall>k' r'. map_of (sync_buffers s' ! j) k' = Some r' \<longrightarrow> Push j k' r' \<in> set (es @ [Push i k r]))"
    if j: "j < n" for j
  proof (cases "j = i")
    case True
    have "buffer_ok ?b'" using buffer_push_ok [OF buf_invD(1) [OF inv i] push] .
    moreover have "set (map fst ?b') = {k'. (i, k') \<in> set (push_signals (es @ [Push i k r]))
            \<and> (is_top k' \<or> \<not> complete n (ready_signals (es @ [Push i k r])) k')}"
      using buffer_push_keys [OF push] buf_invD(2) [OF inv i] notc by auto
    moreover have "\<forall>k' r'. map_of ?b' k' = Some r' \<longrightarrow> Push i k' r' \<in> set (es @ [Push i k r])"
      using map_of_insort_key [OF kb, of r] buf_invD(3) [OF inv i] by auto
    ultimately show ?thesis using True nth' by simp
  next
    case False
    then show ?thesis
      using nth' buf_invD [OF inv j] by auto
  qed
  have "buf_inv n (es @ [Push i k r]) s'"
    unfolding buf_inv_def
  proof (intro conjI allI impI)
    show "\<forall>(k', rs) \<in> set (sync_out s'). length rs = n
            \<and> (\<forall>j < n. Push j k' (rs ! j) \<in> set (es @ [Push i k r]))"
      using buf_inv_outD [OF inv] by (auto simp: s'_def)
  qed (use bufs in blast)+
  with step show ?thesis by blast
qed

lemma ready_step_buf:
  assumes inv: "buf_inv n es s" and rinv: "ready_inv n (ready_signals es) s"
    and i: "i < n" and fresh: "(i, k) \<notin> set (ready_signals es)"
    and pf: "pushed_first [] (es @ [Ready i k])"
  shows "\<exists>s'. on_stream_ready i k s = Inr s' \<and> buf_inv n (es @ [Ready i k]) s'"
proof -
  let ?R = "ready_signals es"
  have len: "length (sync_buffers s) = n"
    and rd: "\<And>k'. if is_top k' \<or> complete n ?R k' then sync_ready s k' = None
                 else distinct (ready_ids s k') \<and> set (ready_ids s k') = {j. (j, k') \<in> set ?R}"
    using rinv unfolding ready_inv_def by blast+
  have other: "\<And>k'. k' \<noteq> k \<Longrightarrow> complete n (?R @ [(i, k)]) k' = complete n ?R k'"
    by (rule complete_other_key)
  have same_keys: "buf_inv n (es @ [Ready i k]) (s\<lparr>sync_ready := m\<rparr>)"
    if keep: "\<And>k'. is_top k' \<or> \<not> complete n (?R @ [(i, k)]) k' \<longleftrightarrow> is_top k' \<or> \<not> complete n ?R k'"
    for m
    unfolding buf_inv_def
  proof (intro conjI allI impI)
    fix j assume j: "j < n"
    show "buffer_ok (sync_buffers (s\<lparr>sync_ready := m\<rparr>) ! j)" using buf_invD(1) [OF inv j] by simp
    show "set (map fst (sync_buffers (s\<lparr>sync_ready := m\<rparr>) ! j))
          = {k'. (j, k') \<in> set (push_signals (es @ [Ready i k]))
              \<and> (is_top k' \<or> \<not> complete n (ready_signals (es @ [Ready i k])) k')}"
      using buf_invD(2) [OF inv j] keep by simp
    fix k' r' assume "map_of (sync_buffers (s\<lparr>sync_ready := m\<rparr>) ! j) k' = Some r'"
    then show "Push j k' r' \<in> set (es @ [Ready i k])"
      using buf_invD(3) [OF inv j] by simp
  next
    show "\<forall>(k', rs) \<in> set (sync_out (s\<lparr>sync_ready := m\<rparr>)). length rs = n
            \<and> (\<forall>j < n. Push j k' (rs ! j) \<in> set (es @ [Ready i k]))"
      using buf_inv_outD [OF inv] by auto
  qed
  show ?thesis
  proof (cases "is_top k")
    case True
    then have "on_stream_ready i k s = Inr (s\<lparr>sync_ready := sync_ready s\<rparr>)"
      using i len by (simp add: on_stream_ready_def)
    moreover have "buf_inv n (es @ [Ready i k]) (s\<lparr>sync_ready := sync_ready s\<rparr>)"
      by (rule same_keys) (metis True other)
    ultimately show ?thesis by blast
  next
    case False
    have notc: "\<not> complete n ?R k" using fresh i by (auto simp: complete_def)
    let ?r = "ready_ids s k"
    have r: "distinct ?r" "set ?r = {j. (j, k) \<in> set ?R}" using rd [of k] False notc by auto
    have ir: "i \<notin> set ?r" using r(2) fresh by simp
    have ids: "\<forall>(j, k') \<in> set ?R. j < n" using rinv by (simp add: ready_inv_def)
    have c_iff: "complete n (?R @ [(i, k)]) k \<longleftrightarrow> Suc (length ?r) = n"
      using complete_snoc [OF r ids i ir] .
    show ?thesis
    proof (cases "Suc (length ?r) = n")
      case nc: False
      then have "on_stream_ready i k s = Inr (s\<lparr>sync_ready := (sync_ready s)(k \<mapsto> i # ?r)\<rparr>)"
        using i len False ir by (simp add: on_stream_ready_def Let_def)
      moreover have "buf_inv n (es @ [Ready i k]) (s\<lparr>sync_ready := (sync_ready s)(k \<mapsto> i # ?r)\<rparr>)"
        by (rule same_keys) (metis c_iff nc notc other)
      ultimately show ?thesis by blast
    next
      case True
      have ck: "complete n (?R @ [(i, k)]) k" using c_iff True by simp
      have present: "k \<in> set (map fst (sync_buffers s ! j))" if j: "j < n" for j
      proof -
        have "(j, k) \<in> set (ready_signals (es @ [Ready i k]))" using ck j by (simp add: complete_def)
        from ready_pushed [OF pf this False] have "(j, k) \<in> set (push_signals es)" by simp
        with buf_invD(2) [OF inv j] notc show ?thesis by simp
      qed
      have all: "\<forall>b \<in> set (sync_buffers s). k \<in> set (map fst b)"
        using present len by (auto simp: in_set_conv_nth)
      let ?rs = "map (\<lambda>b. the (map_of b k)) (sync_buffers s)"
      let ?bs = "map (filter (\<lambda>e. fst e \<noteq> k)) (sync_buffers s)"
      define s' where "s' = s\<lparr>sync_buffers := ?bs, sync_ready := (sync_ready s)(k := None),
                               sync_out := sync_out s @ [(k, ?rs)]\<rparr>"
      have step: "on_stream_ready i k s = Inr s'"
        using i len False ir True pop_all_present [OF all]
        by (simp add: on_stream_ready_def Let_def s'_def)
      have "buf_inv n (es @ [Ready i k]) s'"
        unfolding buf_inv_def
      proof (intro conjI allI impI)
        fix j assume j: "j < n"
        have bj: "sync_buffers s' ! j = filter (\<lambda>e. fst e \<noteq> k) (sync_buffers s ! j)"
          using j len by (simp add: s'_def)
        show "buffer_ok (sync_buffers s' ! j)"
          using buf_invD(1) [OF inv j] unfolding bj
          by (simp add: buffer_ok_def sorted_filter distinct_map_filter)
        show "set (map fst (sync_buffers s' ! j))
              = {k'. (j, k') \<in> set (push_signals (es @ [Ready i k]))
                  \<and> (is_top k' \<or> \<not> complete n (ready_signals (es @ [Ready i k])) k')}"
        proof -
          have "set (map fst (sync_buffers s' ! j)) = set (map fst (sync_buffers s ! j)) - {k}"
            unfolding bj by auto
          also have "\<dots> = {k'. (j, k') \<in> set (push_signals es)
                              \<and> (is_top k' \<or> \<not> complete n (?R @ [(i, k)]) k')}"
            using buf_invD(2) [OF inv j] ck other False complete_append by (auto simp del: set_map)
          finally show ?thesis by simp
        qed
        fix k' r' assume "map_of (sync_buffers s' ! j) k' = Some r'"
        then show "Push j k' r' \<in> set (es @ [Ready i k])"
          using buf_invD(3) [OF inv j] unfolding bj map_of_filter_key by (auto split: if_splits)
      next
        have new: "length ?rs = n \<and> (\<forall>j < n. Push j k (?rs ! j) \<in> set (es @ [Ready i k]))"
        proof (intro conjI allI impI)
          show "length ?rs = n" using len by simp
          fix j assume j: "j < n"
          have "map_of (sync_buffers s ! j) k = Some (?rs ! j)"
            using map_of_Some_key [OF present [OF j]] j len by simp
          from buf_invD(3) [OF inv j this] show "Push j k (?rs ! j) \<in> set (es @ [Ready i k])" by simp
        qed
        show "\<forall>(k', rs) \<in> set (sync_out s'). length rs = n
                \<and> (\<forall>j < n. Push j k' (rs ! j) \<in> set (es @ [Ready i k]))"
          using buf_inv_outD [OF inv] new by (auto simp: s'_def)
      qed
      with step show ?thesis by blast
    qed
  qed
qed

lemma well_formed_run_inv:
  assumes n: "0 < n" and wf: "well_formed_run n es"
  shows "\<exists>s. sync_run (sync_init n) es = Inr s \<and> ready_inv n (ready_signals es) s \<and> buf_inv n es s"
  using wf
proof (induction es rule: rev_induct)
  case Nil
  have "ready_inv n [] (sync_init n)" using n by (rule sync_init_ready_inv)
  moreover have "buf_inv n [] (sync_init n :: 'a synchronizer)"
    by (simp add: buf_inv_def sync_init_def buffer_ok_def)
  ultimately show ?case by simp
next
  case (snoc e es)
  from snoc.prems have wf1: "well_formed_run n es" by (rule well_formed_run_snoc)
  from snoc.IH [OF wf1] obtain s where run: "sync_run (sync_init n) es = Inr s"
    and rinv: "ready_inv n (ready_signals es) s" and binv: "buf_inv n es s" by blast
  have len: "length (sync_buffers s) = n" using rinv by (simp add: ready_inv_def)
  show ?case
  proof (cases e)
    case (Push i k r)
    have i: "i < n" and fresh: "(i, k) \<notin> set (push_signals es)"
      using snoc.prems Push by (auto simp: well_formed_run_def)
    have pf: "pushed_first [] es" using wf1 by (simp add: well_formed_run_def)
    have notc: "is_top k \<or> \<not> complete n (ready_signals es) k"
    proof (rule ccontr)
      assume "\<not> (is_top k \<or> \<not> complete n (ready_signals es) k)"
      then have nt: "\<not> is_top k" and c: "complete n (ready_signals es) k" by auto
      from c i have "(i, k) \<in> set (ready_signals es)" by (simp add: complete_def)
      from ready_pushed [OF pf this nt] fresh show False by simp
    qed
    from push_step_buf [OF binv i len fresh notc, of r] obtain s' where
      st: "sync_push i k r s = Inr s'" and b': "buf_inv n (es @ [Push i k r]) s'" by blast
    have "ready_inv n (ready_signals (es @ [e])) s'" using push_ready_inv [OF st rinv] Push by simp
    moreover have "sync_run (sync_init n) (es @ [e]) = Inr s'"
      using run st Push by (simp add: sync_run_append)
    ultimately show ?thesis using b' Push by blast
  next
    case (Ready i k)
    have i: "i < n" and fresh: "(i, k) \<notin> set (ready_signals es)"
      and pf: "pushed_first [] (es @ [Ready i k])"
      using snoc.prems Ready by (auto simp: well_formed_run_def)
    from ready_step_buf [OF binv rinv i fresh pf] obtain s' where
      st: "on_stream_ready i k s = Inr s'" and b': "buf_inv n (es @ [Ready i k]) s'" by blast
    have "ready_inv n (ready_signals es @ [(i, k)]) s'" by (rule ready_step_inv [OF st rinv fresh])
    moreover have "sync_run (sync_init n) (es @ [e]) = Inr s'"
      using run st Ready by (simp add: sync_run_append)
    ultimately show ?thesis using b' Ready by simp
  qed
qed

lemma buffer_prune_older_than_filter:
  "buffer_ok b \<Longrightarrow>
   buffer_prune_older_than k b = (length (filter (\<lambda>e. fst e < k) b), filter (\<lambda>e. k \<le> fst e) b)"
proof (induction b)
  case Nil
  then show ?case by (simp add: buffer_prune_older_than_def)
next
  case (Cons x b)
  have ok: "buffer_ok b" using Cons.prems by (simp add: buffer_ok_def)
  have ge: "\<forall>e \<in> set b. fst x \<le> fst e" using Cons.prems by (simp add: buffer_ok_def)
  show ?case
  proof (cases "fst x < k")
    case True
    with Cons.IH [OF ok] show ?thesis by (simp add: buffer_prune_older_than_def)
  next
    case False
    then have "\<forall>e \<in> set (x # b). k \<le> fst e" using ge by force
    with False show ?thesis
      by (auto simp: buffer_prune_older_than_def filter_empty_conv not_less)
  qed
qed

text \<open>Interleavings of event lists (\<open>shuffles\<close>) and what they keep of each list.\<close>

lemma ready_signals_map_filter:
  "ready_signals es = List.map_filter (\<lambda>e. case e of Ready i k \<Rightarrow> Some (i, k) | _ \<Rightarrow> None) es"
  by (induction es rule: ready_signals.induct) (simp_all add: List.map_filter_simps)

lemma push_signals_map_filter:
  "push_signals es = List.map_filter (\<lambda>e. case e of Push i k _ \<Rightarrow> Some (i, k) | _ \<Rightarrow> None) es"
  by (induction es rule: push_signals.induct) (simp_all add: List.map_filter_simps)

lemma map_filter_shuffles:
  "zs \<in> shuffles xs ys \<Longrightarrow> List.map_filter f zs \<in> shuffles (List.map_filter f xs) (List.map_filter f ys)"
proof (induction xs ys arbitrary: zs rule: shuffles.induct)
  case (1 ys)
  then show ?case by simp
next
  case (2 xs)
  then show ?case by simp
next
  case (3 x xs y ys)
  from "3.prems" consider (l) zs' where "zs = x # zs'" "zs' \<in> shuffles xs (y # ys)"
    | (r) zs' where "zs = y # zs'" "zs' \<in> shuffles (x # xs) ys" by auto
  then show ?case
  proof cases
    case l
    with "3.IH"(1) show ?thesis
      by (cases "f x") (auto simp: List.map_filter_simps intro: Cons_in_shuffles_leftI)
  next
    case r
    with "3.IH"(2) show ?thesis
      by (cases "f y") (auto simp: List.map_filter_simps intro: Cons_in_shuffles_rightI)
  qed
qed

lemma pushed_first_mono:
  "pushed_first P es \<Longrightarrow> set P \<subseteq> set P' \<Longrightarrow> pushed_first P' es"
proof (induction P es arbitrary: P' rule: pushed_first.induct)
  case (2 P i k r es)
  from "2.prems" have "pushed_first ((i, k) # P) es" "set ((i, k) # P) \<subseteq> set ((i, k) # P')"
    by auto
  from "2.IH" [OF this] show ?case by simp
qed auto

lemma pushed_first_shuffles:
  "zs \<in> shuffles xs ys \<Longrightarrow> pushed_first P xs \<Longrightarrow> pushed_first Q ys \<Longrightarrow> pushed_first (P @ Q) zs"
proof (induction xs ys arbitrary: zs P Q rule: shuffles.induct)
  case (1 ys)
  then show ?case by (auto elim: pushed_first_mono)
next
  case (2 xs)
  then show ?case by (auto elim: pushed_first_mono)
next
  case (3 x xs y ys)
  from "3.prems"(1) consider (l) zs' where "zs = x # zs'" "zs' \<in> shuffles xs (y # ys)"
    | (r) zs' where "zs = y # zs'" "zs' \<in> shuffles (x # xs) ys" by auto
  then show ?case
  proof cases
    case l
    then show ?thesis
    proof (cases x)
      case (Push i k r)
      with l "3.prems"(2,3) "3.IH"(1) [of zs' "(i, k) # P" Q] show ?thesis by simp
    next
      case (Ready i k)
      with l "3.prems"(2,3) "3.IH"(1) [of zs' P Q] show ?thesis by auto
    qed
  next
    case r
    then show ?thesis
    proof (cases y)
      case (Push i k r')
      with r "3.prems"(2,3) "3.IH"(2) [of zs' P "(i, k) # Q"] show ?thesis
        by (auto elim: pushed_first_mono)
    next
      case (Ready i k)
      with r "3.prems"(2,3) "3.IH"(2) [of zs' P Q] show ?thesis by auto
    qed
  qed
qed

lemma ready_signals_shuffles:
  "zs \<in> shuffles xs ys \<Longrightarrow> ready_signals zs \<in> shuffles (ready_signals xs) (ready_signals ys)"
  unfolding ready_signals_map_filter by (rule map_filter_shuffles)

lemma push_signals_shuffles:
  "zs \<in> shuffles xs ys \<Longrightarrow> push_signals zs \<in> shuffles (push_signals xs) (push_signals ys)"
  unfolding push_signals_map_filter by (rule map_filter_shuffles)

lemma distinct_tagged_shuffles:
  "zs \<in> shuffles (map (Pair (0::nat)) xs) (map (Pair 1) ys) \<Longrightarrow> distinct xs \<Longrightarrow> distinct ys \<Longrightarrow>
   distinct zs \<and> set zs = Pair 0 ` set xs \<union> Pair 1 ` set ys"
proof -
  assume zs: "zs \<in> shuffles (map (Pair (0::nat)) xs) (map (Pair 1) ys)"
    and dx: "distinct xs" and dy: "distinct ys"
  have "distinct (map (Pair (0::nat)) xs)" "distinct (map (Pair (1::nat)) ys)"
    "set (map (Pair (0::nat)) xs) \<inter> set (map (Pair 1) ys) = {}"
    using dx dy by (auto simp: distinct_map inj_on_def)
  from distinct_disjoint_shuffles [OF this zs] set_shuffles [OF zs] show ?thesis by simp
qed

lemmas sync_eval_simps = sync_init_def sync_push_def on_stream_ready_def ready_ids_def
  buffer_push_def buffer_pop_def Let_def

section \<open>Main results\<close>

text \<open>Exactly once, in any order: on every run from the initial synchroniser of
  \<open>n > 0\<close> streams that does not fail and in which no stream reports a key twice,
  the consumer receives the tuple of a key exactly once if all \<open>n\<close> streams
  reported it and the key is not top, and never otherwise; the order in which
  the reports interleave does not matter.\<close>

lemma sync_exactly_once:
  assumes "0 < n" and "sync_run (sync_init n) es = Inr s" and "distinct (ready_signals es)"
  shows "count_list (map fst (sync_out s)) k
           = (if \<not> is_top k \<and> complete n (ready_signals es) k then 1 else 0)"
proof -
  have "ready_inv n ([] @ ready_signals es) s"
    using sync_run_ready_inv [OF assms(2) sync_init_ready_inv [OF assms(1)]] assms(3) by simp
  then show ?thesis by (simp add: ready_inv_def)
qed

text \<open>Well-formed runs align: if the producers keep their side of the
  contract (stream ids in range, no key pushed or reported twice by a stream, a
  record pushed before its key is reported), the run raises no error, and every
  tuple handed to the consumer has one record per stream, the record that stream
  pushed for the key, in stream order.\<close>

lemma sync_well_formed_aligns:
  assumes "0 < n" and "well_formed_run n es"
  shows "\<exists>s. sync_run (sync_init n) es = Inr s
           \<and> (\<forall>(k, rs) \<in> set (sync_out s). length rs = n \<and> (\<forall>j < n. Push j k (rs ! j) \<in> set es))"
proof -
  from well_formed_run_inv [OF assms] obtain s where "sync_run (sync_init n) es = Inr s"
    and "buf_inv n es s" by blast
  then show ?thesis by (auto simp: buf_inv_def)
qed

text \<open>Push then pop: pushing a record on a well-formed buffer and popping its
  key gives back the record and the buffer as it was.\<close>

lemma buffer_push_pop_roundtrip:
  assumes "buffer_ok b" and "buffer_push k r b = Inr b'"
  shows "buffer_pop k b' = Inr (r, b) \<and> buffer_ok b'"
proof -
  have kb: "k \<notin> set (map fst b)" and b': "b' = insort_key fst (k, r) b"
    using assms(2) by (auto simp: buffer_push_def split: if_splits)
  have "map_of b' k = Some r" using map_of_insort_key [OF kb, of r] b' by simp
  moreover have "filter (\<lambda>e. fst e \<noteq> k) b' = b"
    using kb unfolding b' by (auto simp: filter_insort_triv intro: filter_True)
  ultimately have "buffer_pop k b' = Inr (r, b)" by (simp add: buffer_pop_def)
  with buffer_push_ok [OF assms] show ?thesis by simp
qed

section \<open>Examples\<close>

lemma sync_exactly_once_example:
  "sync_run (sync_init 2)
     [Push 0 (TS [1]) (10::nat), Ready 0 (TS [1]), Push 1 (TS [1]) 11, Push 1 (TS [2]) 12,
      Ready 1 (TS [2]), Ready 1 (TS [1])]
   = Inr \<lparr>sync_buffers = [[], [(TS [2], 12)]], sync_ready = [TS [2] \<mapsto> [1]],
          sync_out = [(TS [1], [10, 11])]\<rparr>
   \<and> count_list (map fst [(TS [1], [10::nat, 11])]) (TS [1]) = 1
   \<and> count_list (map fst [(TS [1], [10::nat, 11])]) (TS [2]) = 0"
proof -
  have run: "sync_run (sync_init 2)
     [Push 0 (TS [1]) (10::nat), Ready 0 (TS [1]), Push 1 (TS [1]) 11, Push 1 (TS [2]) 12,
      Ready 1 (TS [2]), Ready 1 (TS [1])]
   = Inr \<lparr>sync_buffers = [[], [(TS [2], 12)]], sync_ready = [TS [2] \<mapsto> [1]],
          sync_out = [(TS [1], [10, 11])]\<rparr>"
    by (simp add: sync_eval_simps numeral_2_eq_2 fun_upd_twist)
  have d: "distinct (ready_signals
     [Push 0 (TS [1]) (10::nat), Ready 0 (TS [1]), Push 1 (TS [1]) 11, Push 1 (TS [2]) 12,
      Ready 1 (TS [2]), Ready 1 (TS [1])])" by simp
  from sync_exactly_once [OF _ run d, of "TS [1]"] sync_exactly_once [OF _ run d, of "TS [2]"] run
  show ?thesis by (simp add: complete_def numeral_2_eq_2 less_Suc_eq)
qed

lemma sync_well_formed_aligns_example:
  "\<exists>s. sync_run (sync_init 2)
         [Push 1 (TS [1]) (11::nat), Push 0 (TS [1]) 10, Ready 1 (TS [1]), Ready 0 (TS [1])] = Inr s
       \<and> list_all (\<lambda>(k, rs). length rs = 2) (sync_out s)"
proof -
  have "well_formed_run 2
         [Push 1 (TS [1]) (11::nat), Push 0 (TS [1]) 10, Ready 1 (TS [1]), Ready 0 (TS [1])]"
    by (simp add: well_formed_run_def)
  from sync_well_formed_aligns [OF _ this] show ?thesis
    by (auto simp: list_all_iff)
qed

lemma buffer_push_pop_roundtrip_example:
  "buffer_pop (TS [2]) [(TS [1], (7::nat)), (TS [2], 8), (TS [5], 9)]
     = Inr (8, [(TS [1], 7), (TS [5], 9)])"
proof -
  have ok: "buffer_ok [(TS [1], (7::nat)), (TS [5], 9)]" by (simp add: buffer_ok_def)
  have "buffer_push (TS [2]) 8 [(TS [1], (7::nat)), (TS [5], 9)]
          = Inr [(TS [1], 7), (TS [2], 8), (TS [5], 9)]"
    by (simp add: buffer_push_def)
  from buffer_push_pop_roundtrip [OF ok this] show ?thesis by simp
qed

end
