(* ===== verification/Refinements.thy ===== *)
theory Refinements
  imports LidarDriver DetectionDecay PredictionEval Synchronizer
begin

text \<open>
  The operators keep buffers of their own where the spec has a
  \<open>PerStreamBuffer\<close> and a \<open>StreamSynchronizer\<close>. This theory relates them
  through abstraction functions: the LiDAR driver's pickle cache
  \<open>_pickled_messages\<close> is the \<open>map_of\<close> of a buffer, the decay window
  \<open>_ground_bboxes\<close> is a buffer keyed by the game-time timestamp
  (\<open>window_buffer\<close>), and the prediction evaluator's three FIFO deques are
  compared, under lockstep delivery, with a three-stream synchroniser feeding
  the keyed alignment driver \<open>keyed_run\<close>.
\<close>

text \<open>The decay window seen as a buffer keyed by \<open>erdos.Timestamp([game_time])\<close>.\<close>

definition window_buffer :: "(int \<times> 'b list) list \<Rightarrow> 'b list stream_buffer" where
  "window_buffer w = map (\<lambda>(t, bs). (TS [t], bs)) w"

text \<open>Lockstep delivery to the prediction evaluator: in each round the tracking,
  prediction and pose streams send one message for a timestamp and then the
  watermark for it. To the operator (\<open>on_data\<close>, \<open>on_watermark\<close>) the round is
  four events; to a three-stream synchroniser keyed by timestamp it is three
  pushes and three readiness reports.\<close>

type_synonym 'pose pe_round =
  "timestamp \<times> obstacle_trajectory list \<times> obstacle_prediction list \<times> 'pose"

fun pe_round_events :: "'pose pe_round \<Rightarrow> 'pose pe_event list" where
  "pe_round_events (t, tr, p, q) =
     [DataEvent (TrackingData tr), DataEvent (PredictionData p), DataEvent (PoseData q),
      WatermarkEvent t]"

fun sync_round_events :: "'pose pe_round \<Rightarrow> 'pose pe_data sync_event list" where
  "sync_round_events (t, tr, p, q) =
     [Push 0 t (TrackingData tr), Push 1 t (PredictionData p), Push 2 t (PoseData q),
      Ready 0 t, Ready 1 t, Ready 2 t]"

fun round_tuple :: "'pose pe_round \<Rightarrow> timestamp \<times> 'pose pe_data list" where
  "round_tuple (t, tr, p, q) = (t, [TrackingData tr, PredictionData p, PoseData q])"

text \<open>The alignment driver the spec describes: the synchroniser's consumer
  receives \<open>(key, tuple)\<close> and runs the operator's watermark handler on exactly the
  tuple's tracking, prediction and pose messages.\<close>

definition load_tuple :: "'pose pe_data list \<Rightarrow> 'pose pe_operator \<Rightarrow> 'pose pe_operator" where
  "load_tuple rs s =
     s\<lparr>tracking_msgs := [tr. TrackingData tr \<leftarrow> rs],
       prediction_msgs := [p. PredictionData p \<leftarrow> rs],
       pose_msgs := [q. PoseData q \<leftarrow> rs]\<rparr>"

fun keyed_run ::
  "('pose \<Rightarrow> location \<Rightarrow> location) \<Rightarrow> nat \<Rightarrow> 'pose pe_operator \<Rightarrow> (timestamp \<times> 'pose pe_data list) list
   \<Rightarrow> (string \<times> rat) list option list \<times> 'pose pe_operator \<times> py_error option" where
  "keyed_run tw W s [] = ([], s, None)"
| "keyed_run tw W s ((k, rs) # ts) =
     (case pe_on_watermark tw W k (load_tuple rs s) of
        (Inl e, s') \<Rightarrow> ([], s', Some e)
      | (Inr r, s') \<Rightarrow> (case keyed_run tw W s' ts of (outs, s'', err) \<Rightarrow> (r # outs, s'', err)))"

section \<open>Lemmas\<close>

lemma evict_old_length_le: "length (evict_old g lat w) \<le> length w"
  by (induction g lat w rule: evict_old.induct) auto

lemma on_watermark_pop:
  assumes ok: "buffer_ok b" and abs: "map_of b = pickled_messages s" and nt: "\<not> is_top t"
  shows "case on_watermark t s of
           Inl e \<Rightarrow> e = KeyError \<and> buffer_pop t b = Inl NotFoundError
         | Inr s' \<Rightarrow> (\<exists>d b'. buffer_pop t b = Inr (d, b') \<and> buffer_ok b'
                       \<and> map_of b' = pickled_messages s'
                       \<and> left_stream s' = left_stream s @ [Message t d, WatermarkMessage t])"
proof (cases "pickled_messages s t")
  case None
  with abs nt show ?thesis by (simp add: on_watermark_def buffer_pop_def)
next
  case (Some d)
  let ?b' = "filter (\<lambda>e. fst e \<noteq> t) b"
  have pop: "buffer_pop t b = Inr (d, ?b')" using Some abs by (simp add: buffer_pop_def)
  have "buffer_ok ?b'" using buffer_pop_ok [OF ok pop] .
  moreover have "map_of ?b' = (pickled_messages s)(t := None)" using abs by (simp add: map_of_filter_key)
  ultimately show ?thesis using Some nt pop by (simp add: on_watermark_def)
qed

lemma process_push:
  assumes ok: "buffer_ok b" and abs: "map_of b = pickled_messages s"
    and gated: "\<not> release_data s" and pts: "raw_data pc \<noteq> []"
    and fresh: "sim_timestamp (pc_timestamp pc) \<notin> dom (pickled_messages s)"
  shows "\<exists>s' b'. process_point_clouds f pc s = Inr s'
           \<and> buffer_push (sim_timestamp (pc_timestamp pc)) (f pc) b = Inr b'
           \<and> buffer_ok b' \<and> map_of b' = pickled_messages s'"
proof -
  let ?k = "sim_timestamp (pc_timestamp pc)"
  have "map_of b ?k = None" using fresh abs by auto
  then have kb: "?k \<notin> set (map fst b)" by (simp add: map_of_eq_None_iff)
  let ?b' = "insort_key fst (?k, f pc) b"
  have push: "buffer_push ?k (f pc) b = Inr ?b'" using kb by (simp add: buffer_push_def)
  have "map_of ?b' = (pickled_messages s)(?k \<mapsto> f pc)" using map_of_insort_key [OF kb] abs by simp
  with push buffer_push_ok [OF ok push] gated pts show ?thesis
    by (simp add: process_point_clouds_def Let_def)
qed

abbreviation drained :: "'pose pe_operator \<Rightarrow> bool" where
  "drained s \<equiv> tracking_msgs s = [] \<and> prediction_msgs s = [] \<and> pose_msgs s = []"

lemma sync_round:
  "\<not> is_top t \<Longrightarrow>
   sync_run \<lparr>sync_buffers = replicate 3 [], sync_ready = Map.empty, sync_out = out\<rparr>
     (sync_round_events (t, tr, p, q) @ es)
   = sync_run \<lparr>sync_buffers = replicate 3 [], sync_ready = Map.empty,
               sync_out = out @ [round_tuple (t, tr, p, q)]\<rparr> es"
  by (simp add: sync_run_append sync_eval_simps numeral_3_eq_3)

lemma sync_rounds:
  "\<forall>x \<in> set rs. \<not> is_top (fst x) \<Longrightarrow>
   sync_run \<lparr>sync_buffers = replicate 3 [], sync_ready = Map.empty, sync_out = out\<rparr>
     (concat (map sync_round_events rs))
   = Inr \<lparr>sync_buffers = replicate 3 [], sync_ready = Map.empty,
          sync_out = out @ map round_tuple rs\<rparr>"
proof (induction rs arbitrary: out)
  case (Cons x rs)
  obtain t tr p q where x: "x = (t, tr, p, q)" by (cases x) auto
  have nt: "\<not> is_top t" using Cons.prems x by simp
  have "sync_run \<lparr>sync_buffers = replicate 3 [], sync_ready = Map.empty, sync_out = out\<rparr>
      (concat (map sync_round_events (x # rs)))
    = sync_run \<lparr>sync_buffers = replicate 3 [], sync_ready = Map.empty,
                sync_out = out @ [round_tuple x]\<rparr> (concat (map sync_round_events rs))"
    unfolding x list.map concat.simps by (rule sync_round [OF nt])
  also have "\<dots> = Inr \<lparr>sync_buffers = replicate 3 [], sync_ready = Map.empty,
                       sync_out = out @ map round_tuple (x # rs)\<rparr>"
    using Cons by simp
  finally show ?case .
qed simp

lemma pe_on_watermark_drains:
  "\<not> is_top t \<Longrightarrow> pe_on_watermark tw W t (load_tuple [TrackingData tr, PredictionData p, PoseData q] s)
     = (Inr r, s') \<Longrightarrow> drained s'"
  by (auto simp: pe_on_watermark_def load_tuple_def Let_def split: list.splits if_splits sum.splits)

lemma pe_rounds_keyed:
  "\<forall>x \<in> set rs. \<not> is_top (fst x) \<Longrightarrow> drained s \<Longrightarrow>
   pe_run tw W s (concat (map pe_round_events rs)) = keyed_run tw W s (map round_tuple rs)"
proof (induction rs arbitrary: s)
  case (Cons x rs)
  obtain t tr p q where x: "x = (t, tr, p, q)" by (cases x) auto
  have load: "on_pose_update q (on_prediction_update p (on_tracking_update tr s))
      = load_tuple [TrackingData tr, PredictionData p, PoseData q] s"
    using Cons.prems(2)
    by (simp add: load_tuple_def on_pose_update_def on_prediction_update_def on_tracking_update_def)
  have nt: "\<not> is_top t" using Cons.prems(1) x by simp
  show ?case
  proof (cases "pe_on_watermark tw W t (load_tuple [TrackingData tr, PredictionData p, PoseData q] s)")
    case (Pair res s')
    show ?thesis
    proof (cases res)
      case (Inr r)
      from Pair Inr have "pe_on_watermark tw W t (load_tuple [TrackingData tr, PredictionData p, PoseData q] s)
          = (Inr r, s')" by simp
      then have "drained s'" by (rule pe_on_watermark_drains [OF nt])
      with Cons.IH Cons.prems(1) have "pe_run tw W s' (concat (map pe_round_events rs))
          = keyed_run tw W s' (map round_tuple rs)" by simp
      with Pair Inr x load show ?thesis by simp
    qed (use Pair x load in simp)
  qed
qed simp

section \<open>Properties\<close>

text \<open>C36 (the pickle cache is a PerStreamBuffer): read through \<open>map_of\<close>, the LiDAR
  driver's cache behaves as the spec's buffer for keys offered once: a gated
  callback with a fresh game time is \<open>push\<close>, and a release watermark is
  \<open>pop\<close>, sending the popped payload, with \<open>KeyError\<close> exactly where \<open>pop\<close>
  raises \<open>NotFoundError\<close>.\<close>

theorem lidar_cache_refines_buffer:
  assumes "buffer_ok b" and "map_of b = pickled_messages s"
  shows "(\<not> release_data s \<longrightarrow> raw_data pc \<noteq> []
            \<longrightarrow> sim_timestamp (pc_timestamp pc) \<notin> dom (pickled_messages s)
            \<longrightarrow> (\<exists>s' b'. process_point_clouds f pc s = Inr s'
                   \<and> buffer_push (sim_timestamp (pc_timestamp pc)) (f pc) b = Inr b'
                   \<and> buffer_ok b' \<and> map_of b' = pickled_messages s'))
       \<and> (\<not> is_top t \<longrightarrow>
            (case on_watermark t s of
               Inl e \<Rightarrow> e = KeyError \<and> buffer_pop t b = Inl NotFoundError
             | Inr s' \<Rightarrow> (\<exists>d b'. buffer_pop t b = Inr (d, b') \<and> buffer_ok b'
                            \<and> map_of b' = pickled_messages s'
                            \<and> left_stream s' = left_stream s @ [Message t d, WatermarkMessage t])))"
  using process_push [OF assms] on_watermark_pop [OF assms] by blast

text \<open>C37 (eviction is \<open>prune_older_than\<close>): the eviction loop of \<open>on_data\<close>
  (lines 37--41), on the window seen as a buffer keyed by game-time timestamps,
  is the spec's \<open>prune_older_than(now - decay_max_latency)\<close>: it keeps exactly the
  suffix the prune keeps and drops as many entries as the prune reports, on any
  window, sorted or not.\<close>

theorem evict_old_refines_prune:
  "buffer_prune_older_than (TS [now - lat]) (window_buffer w)
     = (length w - length (evict_old now lat w), window_buffer (evict_old now lat w))"
  by (induction now lat w rule: evict_old.induct)
    (auto simp: buffer_prune_older_than_def window_buffer_def Suc_diff_le evict_old_length_le)

text \<open>C38 (positional alignment is keyed alignment under lockstep delivery): when
  every round delivers one tracking, one prediction and one pose message for a
  timestamp that is not top and then its watermark, a three-stream synchroniser
  keyed by timestamp emits each round's messages as one tuple, and the
  prediction evaluator, which pairs the heads of its three FIFO deques
  (\<open>on_watermark\<close>, lines 71--73) without looking at timestamps, produces the same
  outcomes, state and exception as the alignment driver fed with those keyed
  tuples.\<close>

theorem lockstep_alignment_refines_keyed:
  assumes "\<forall>x \<in> set rs. \<not> is_top (fst x)"
  shows "\<exists>s. sync_run (sync_init 3) (concat (map sync_round_events rs)) = Inr s
           \<and> sync_out s = map round_tuple rs
           \<and> pe_run tw W pe_init (concat (map pe_round_events rs)) = keyed_run tw W pe_init (sync_out s)"
proof -
  have init: "sync_init 3 = \<lparr>sync_buffers = replicate 3 [], sync_ready = Map.empty, sync_out = []\<rparr>"
    by (simp add: sync_init_def)
  from sync_rounds [OF assms, of "[]"] pe_rounds_keyed [OF assms, of pe_init tw W] show ?thesis
    unfolding init by (simp add: pe_init_def)
qed

section \<open>Witnesses\<close>

theorem lidar_cache_refines_buffer_witness:
  "buffer_ok [(TS [100], [7::nat])]
   \<and> map_of [(TS [100], [7::nat])]
       = pickled_messages \<lparr>release_data = False, pickled_messages = [TS [100] \<mapsto> [7]],
                           left_stream = [], right_stream = [WatermarkMessage (TS [100])]\<rparr>
   \<and> (\<exists>s' b'. process_point_clouds raw_data \<lparr>pc_timestamp = 2/10, raw_data = [8::nat]\<rparr>
                 \<lparr>release_data = False, pickled_messages = [TS [100] \<mapsto> [7]],
                  left_stream = [], right_stream = [WatermarkMessage (TS [100])]\<rparr> = Inr s'
        \<and> buffer_push (TS [200]) [8] [(TS [100], [7])] = Inr b'
        \<and> buffer_ok b' \<and> map_of b' = pickled_messages s')
   \<and> (\<exists>b'. buffer_pop (TS [100]) [(TS [100], [7::nat])] = Inr ([7], b') \<and> buffer_ok b')"
proof -
  let ?b = "[(TS [100], [7::nat])]"
  let ?s = "\<lparr>release_data = False, pickled_messages = [TS [100] \<mapsto> [7::nat]],
             left_stream = [], right_stream = [WatermarkMessage (TS [100])]\<rparr>"
  let ?pc = "\<lparr>pc_timestamp = 2/10, raw_data = [8::nat]\<rparr>"
  have ok: "buffer_ok ?b" by (simp add: buffer_ok_def)
  have abs: "map_of ?b = pickled_messages ?s" by simp
  have k: "sim_timestamp (pc_timestamp ?pc) = TS [200]"
    by (simp add: sim_timestamp_def game_time_def py_int_def)
  from lidar_cache_refines_buffer [OF ok abs, of ?pc raw_data "TS [100]"] ok abs k show ?thesis
    by (simp add: on_watermark_def)
qed

theorem lockstep_alignment_refines_keyed_witness:
  "\<not> is_top (TS [1]) \<and> \<not> is_top (TS [2])
   \<and> (\<exists>s. sync_run (sync_init 3)
              (concat (map sync_round_events [(TS [1], [], [], 0::nat), (TS [2], [], [], 1)])) = Inr s
         \<and> sync_out s = [(TS [1], [TrackingData [], PredictionData [], PoseData 0]),
                         (TS [2], [TrackingData [], PredictionData [], PoseData 1])]
         \<and> pe_run (\<lambda>_ l. l) 1 pe_init
              (concat (map pe_round_events [(TS [1], [], [], 0::nat), (TS [2], [], [], 1)]))
           = keyed_run (\<lambda>_ l. l) 1 pe_init (sync_out s))"
  using lockstep_alignment_refines_keyed [of "[(TS [1], [], [], 0::nat), (TS [2], [], [], 1)]"
      "\<lambda>_ l. l" 1]
  by simp

end
