(* ===== verification/Spec2Isabelle.thy ===== *)
theory Spec2Isabelle
  imports LidarThreads RunnerMain Refinements
begin

text \<open>
  \<^bold>\<open>A verification model of pylot's stream synchronisation and metric operators.\<close>

  The repository (objorkman/pylot, four files under \<open>src/\<close>) holds three erdos
  operators and a test runner:
  \<^item> \<open>src/pylot/drivers/carla_lidar_driver_operator.py\<close>, the LiDAR driver: a
    simulator callback (\<open>process_point_clouds\<close>) and a release-watermark handler
    (\<open>on_watermark\<close>) that together gate the release of point clouds;
  \<^item> \<open>src/pylot/perception/detection/detection_decay_operator.py\<close>, the
    detection-decay evaluator: a window of past ground-truth boxes pruned by age
    and scored against each new frame;
  \<^item> \<open>src/pylot/prediction/prediction_eval_operator.py\<close>, the prediction
    evaluator: three FIFO buffers drained on each watermark, a bounded deque of
    past predictions, and MSD/ADE/FDE metrics per obstacle class;
  \<^item> \<open>src/detection_operator_runner.py\<close>, a script that wires simulator
    cameras to ingest streams.
  The operators interact only through erdos streams: the LiDAR driver feeds
  point clouds to perception, perception and tracking feed the evaluators. The
  synchronisation itself (watermarks, \<open>on_watermark\<close> being called once all
  inputs have a watermark) belongs to the erdos runtime, outside the repository;
  \<open>Synchronizer\<close> models it from the spec's contract. The models take the
  order of callbacks as an explicit list of events, and \<open>LidarThreads\<close>
  models the one place where two threads share state.

  \<^bold>\<open>Theories and the code they model.\<close>
  \<^item> \<open>Prelude\<close>: Python exceptions (\<open>py_error\<close>) and results
    \<open>py_error + 'a\<close> (\<open>Inl\<close> a raise); \<open>erdos.Timestamp\<close> as
    \<open>timestamp\<close> (coordinates or top, a \<open>linorder\<close> with top greatest);
    \<open>int(t * 1000)\<close> as \<open>game_time\<close> over rationals (Python floats are modelled
    as exact rationals); \<open>collections.deque\<close> operations \<open>popleft\<close> and
    \<open>append_bounded\<close> (\<open>deque(maxlen=n).append\<close>); negative indexing
    \<open>py_get\<close>, raising \<open>IndexError\<close> out of range.
  \<^item> \<open>LidarDriver\<close> (\<open>CarlaLidarDriverOperator\<close>): the record
    \<open>lidar_driver\<close> holds \<open>_release_data\<close>, \<open>_pickled_messages\<close> (a map from
    timestamps) and the two output streams as the lists of messages sent;
    \<open>process_point_clouds\<close> and \<open>on_watermark\<close> are the two callbacks, and
    \<open>lidar_run\<close> folds a list of \<open>lidar_event\<close>s. Lemmas: conservation of
    offered point clouds (emitted plus pending equals offered), the gated
    offer/release round trip (the payload is sent and the cache given back),
    the pairing of payload and watermark on the left stream, the one-way mode
    switch.
  \<^item> \<open>LidarThreads\<close>: the driver's two threads interleaved. The simulator
    callback is one atomic step (it holds \<open>_lock\<close>); \<open>on_watermark\<close> is its
    unlocked read-and-send (\<open>send_pickled\<close>, lines 155--161) and its delete
    under \<open>_pickle_lock\<close> (\<open>delete_pickled\<close>, lines 162--163). The
    inductive \<open>lidar_thread_step\<close> and its reachability closure
    \<open>lidar_reach\<close> carry a ghost log of offered (key, payload) pairs. Lemmas:
    conservation under every interleaving, linearisability (reachable idle
    states are exactly sequential run states) for distinct game times, and the
    race that deletes an unsent payload when two callbacks share a game time,
    and progress: from every reachable state where \<open>on_watermark\<close> has not
    raised, every cached payload can still be delivered.
  \<^item> \<open>Runner\<close> (\<open>detection_operator_runner.py\<close>, \<open>main\<close>): the camera
    setups (\<open>main_setups\<close>; the setup classes are pylot code, only their name
    and camera type are modelled), the six ingest streams as a record of sent
    messages, the five callbacks \<open>process_rgb_images\<close> ...
    \<open>process_right_images\<close> with their camera-type tests, \<open>runner_run\<close>
    (the callbacks serialised by \<open>_lock\<close>), and \<open>connected_operators\<close>, the
    wiring chosen by \<open>--test_operator\<close>. Lemmas: the segmentation stream is
    never written, the RGB and ttd streams never carry a watermark, each
    stream carries only frames its own camera's callback decoded
    (\<open>decoded_frame\<close>, \<open>camera_ingest\<close>), the stereo streams are
    frame/watermark pairs in capture order.
  \<^item> \<open>RunnerMain\<close> (\<open>main\<close>, lines 56--302, and \<open>setup_camera\<close>): the
    actor lifecycle. The \<open>try\<close> block is the list \<open>main_calls\<close> of simulator
    calls, each of which may raise (a parameter \<open>fails\<close>), run by
    \<open>run_until_raise\<close>; the \<open>finally\<close> block destroys the three centre
    cameras and \<open>actor_list\<close>, raising \<open>UnboundLocalError\<close> on a camera
    variable never assigned. Every failure pattern reduces to the number of
    calls that returned (\<open>main_outcome\<close>), and the seventeen cases are
    evaluated. Lemmas: the stereo cameras and the traffic are never destroyed,
    an early failure is masked by \<open>UnboundLocalError\<close> and leaks the ego
    vehicle, no actor is destroyed twice or unspawned.
  \<^item> \<open>PrecisionRecall\<close> (spec-modelled: \<open>get_precision_recall_at_iou\<close> is in
    \<open>pylot.perception.detection.utils\<close>, not under \<open>src/\<close>): greedy one-to-one
    matching, precision and recall; bounds, and exact matching of a list
    against itself (via multisets).
  \<^item> \<open>DetectionDecay\<close> (\<open>DetectionDecayOperator.on_data\<close>): the record
    \<open>decay_operator\<close> holds \<open>_ground_bboxes\<close>; \<open>evict_old\<close> is the eviction
    while loop (proved equal to a \<open>dropWhile\<close>), \<open>decay_messages\<close> the scoring
    loop, \<open>decay_on_data\<close> the handler, \<open>decay_run\<close> a run. Lemmas: the window
    invariant (sorted, no entry older than the bound) under monotone game
    times, bounds of emitted latencies and precisions, the spec's eviction
    scenario, average precision in the degenerate cases.
  \<^item> \<open>TrajectoryMetrics\<close> (\<open>PredictionEvalOperator._calculate_metrics\<close>,
    lines 100--202): the end-aligned distance loop \<open>distance_loop\<close>
    (equal to a sum over the zipped reversed trajectories), \<open>score_obstacle\<close>
    (with its \<open>ZeroDivisionError\<close> and \<open>IndexError\<close>), \<open>metrics_step\<close> and
    \<open>metrics_loop\<close> over the predictions (\<open>KeyError\<close>, \<open>ValueError\<close>),
    \<open>metric_rows\<close> and \<open>calculate_metrics\<close>. Lemmas: identical
    trajectories score zero, a constant offset scores its distance, longer
    ground truth is truncated from the front, every raise.
  \<^item> \<open>PredictionEval\<close> (\<open>PredictionEvalOperator\<close>): the record
    \<open>pe_operator\<close> holds the three deques and \<open>_predictions\<close>;
    \<open>pe_on_data\<close>, \<open>pe_on_watermark\<close> (returning the outcome with the state as
    a raise leaves it) and \<open>pe_run\<close>. Lemmas: warm-up then scoring phases,
    the number of scored watermarks, the horizon-zero crash, a starved
    prediction stream consuming tracking messages, the bound on the deque.
  \<^item> \<open>Synchronizer\<close> (spec-modelled, sections 4.1, 4.3 and 5: the erdos
    runtime is not in the repository): the \<open>PerStreamBuffer\<close> as a list sorted
    by strictly increasing key with \<open>buffer_push\<close>, \<open>buffer_pop\<close> and
    \<open>buffer_prune_older_than\<close>; the \<open>StreamSynchronizer\<close> record of one
    buffer per stream, the per-key readiness and the tuples handed to the
    consumer; \<open>sync_push\<close>, \<open>on_stream_ready\<close> and runs \<open>sync_run\<close> of
    \<open>Push\<close>/\<open>Ready\<close> events serialised by the lock. Lemmas: the readiness
    invariant \<open>ready_inv\<close> and the buffer invariant \<open>buf_inv\<close> preserved by
    every step (by \<open>rev_induct\<close> over the run), exactly-once emission in any
    interleaving, error-free runs for producers that keep the contract
    (\<open>well_formed_run\<close>), the push/pop round trip, and projections of
    \<open>shuffles\<close> (interleavings) onto each stream.
  \<^item> \<open>Refinements\<close>: the operators' own buffers against the spec's. The LiDAR
    pickle cache read through \<open>map_of\<close> is a \<open>PerStreamBuffer\<close> (a gated
    callback is \<open>buffer_push\<close>, a release watermark is \<open>buffer_pop\<close>,
    \<open>KeyError\<close> is \<open>NotFoundError\<close>); the decay eviction loop is
    \<open>buffer_prune_older_than\<close> on the window keyed by game time
    (\<open>window_buffer\<close>); and under lockstep delivery of the three streams
    (\<open>pe_round_events\<close>, \<open>sync_round_events\<close>) the prediction evaluator's
    positional pairing of deque heads equals \<open>keyed_run\<close>, the alignment
    driver fed with the tuples a three-stream synchroniser emits.
  \<^item> this theory: properties that combine the decay handler with the
    precision/recall primitive (a static scene scores 1, an appearing or
    vanishing scene scores 0, empty frames send nothing), and the runner with
    the synchroniser: \<open>to_sync\<close> delivers an ingest stream (a data message
    pushes, a watermark reports ready); the stereo streams, in any
    interleaving, align each timestamp both cameras delivered exactly once,
    while two frames less than a millisecond apart make the alignment fail
    or strand a frame.

  \<^bold>\<open>Loops, bounds and fuel.\<close> Every loop of the modelled code runs over a
  finite list (the deques, the trajectories, the prediction list, the IoU
  thresholds), so every loop is a structurally recursive \<open>fun\<close> or a fold and
  needs no fuel; the distance loop counts up to the prediction length. The
  bounded deque's capacity is the parameter \<open>W\<close>
  (\<open>prediction_num_future_steps\<close>). \<open>main\<close> of the runner has no loop: its
  seventeen simulator calls are a fixed list, so every failure pattern is one of
  eighteen prefixes, all evaluated.

  \<^bold>\<open>Not modelled.\<close> Simulator setup and sensor decoding (\<open>setup_lidar\<close>,
  \<open>PointCloud.from_simulator_point_cloud\<close>: its value is a parameter
  \<open>from_pc\<close>), the coordinate transforms (a parameter \<open>tw\<close>), the IoU of two
  boxes (a parameter \<open>ov\<close>), logging and CSV sinks, the erdos runtime's
  scheduling of callbacks (only its synchronisation contract is modelled, from
  the spec), and the simulator itself behind the runner's calls: which call raises is a
  parameter, the blueprint attributes and transforms \<open>setup_camera\<close> sets are
  not modelled, and destroy calls are taken not to raise.
\<close>

section \<open>Delivering ingest streams to a synchroniser\<close>

text \<open>How erdos hands the messages of input stream \<open>i\<close> of an operator to its
  synchronisation: a data message pushes its payload for the message's timestamp,
  a watermark reports the stream ready for it. The streams of one operator reach
  it in any interleaving, so a delivery is any shuffle of the translated
  streams.\<close>

fun to_sync :: "nat \<Rightarrow> 'd message list \<Rightarrow> 'd sync_event list" where
  "to_sync i [] = []"
| "to_sync i (Message t d # ms) = Push i t d # to_sync i ms"
| "to_sync i (WatermarkMessage t # ms) = Ready i t # to_sync i ms"

text \<open>The timestamps of the data messages of a stream.\<close>

fun data_times :: "'d message list \<Rightarrow> timestamp list" where
  "data_times [] = []"
| "data_times (Message t _ # ms) = t # data_times ms"
| "data_times (WatermarkMessage _ # ms) = data_times ms"

section \<open>Lemmas on delivery\<close>

lemma ready_signals_to_sync: "ready_signals (to_sync i ms) = map (Pair i) (watermarks_of ms)"
  by (induction i ms rule: to_sync.induct) simp_all

lemma push_signals_to_sync: "push_signals (to_sync i ms) = map (Pair i) (data_times ms)"
  by (induction i ms rule: to_sync.induct) simp_all

lemma push_in_to_sync: "Push j k r \<in> set (to_sync i ms) \<longleftrightarrow> j = i \<and> Message k r \<in> set ms"
  by (induction i ms rule: to_sync.induct) auto

lemma well_paired_data_times: "well_paired ms \<Longrightarrow> data_times ms = watermarks_of ms"
  by (induction ms rule: well_paired.induct) simp_all

lemma well_paired_pushed_first: "well_paired ms \<Longrightarrow> pushed_first [] (to_sync i ms)"
  by (induction ms rule: well_paired.induct) (auto elim: pushed_first_mono)

lemma paired_streams_align:
  assumes wl: "well_paired L" and wr: "well_paired R"
    and dl: "distinct (watermarks_of L)" and dr: "distinct (watermarks_of R)"
    and tl: "\<forall>k \<in> set (watermarks_of L). \<not> is_top k"
    and sh: "es \<in> shuffles (to_sync 0 L) (to_sync 1 R)"
  shows "\<exists>s. sync_run (sync_init 2) es = Inr s
     \<and> (\<forall>k. count_list (map fst (sync_out s)) k
             = (if k \<in> set (watermarks_of L) \<and> k \<in> set (watermarks_of R) then 1 else 0))
     \<and> (\<forall>(k, rs) \<in> set (sync_out s). \<exists>l r. rs = [l, r] \<and> Message k l \<in> set L \<and> Message k r \<in> set R)"
proof -
  have rd: "distinct (ready_signals es)"
    and rset: "set (ready_signals es) = Pair 0 ` set (watermarks_of L) \<union> Pair 1 ` set (watermarks_of R)"
    using distinct_tagged_shuffles [OF _ dl dr] ready_signals_shuffles [OF sh]
    by (simp_all add: ready_signals_to_sync)
  have pd: "distinct (push_signals es)" and pset: "set (push_signals es) \<subseteq> {0, 1} \<times> UNIV"
    using distinct_tagged_shuffles [OF _ dl dr] push_signals_shuffles [OF sh]
    by (auto simp: push_signals_to_sync well_paired_data_times [OF wl] well_paired_data_times [OF wr])
  have "pushed_first ([] @ []) es"
    using sh well_paired_pushed_first [OF wl] well_paired_pushed_first [OF wr]
    by (rule pushed_first_shuffles)
  with rd rset pd pset have wf: "well_formed_run 2 es"
    by (auto simp: well_formed_run_def list_all_iff)
  from well_formed_run_inv [OF _ wf] obtain s where run: "sync_run (sync_init 2) es = Inr s"
    and rinv: "ready_inv 2 (ready_signals es) s" and binv: "buf_inv 2 es s" by auto
  have cnt: "count_list (map fst (sync_out s)) k
        = (if k \<in> set (watermarks_of L) \<and> k \<in> set (watermarks_of R) then 1 else 0)" for k
  proof -
    have "complete 2 (ready_signals es) k \<longleftrightarrow> k \<in> set (watermarks_of L) \<and> k \<in> set (watermarks_of R)"
      using rset by (auto simp: complete_def less_2_cases_iff)
    with rinv tl show ?thesis by (auto simp: ready_inv_def)
  qed
  have out: "\<exists>l r. rs = [l, r] \<and> Message k l \<in> set L \<and> Message k r \<in> set R"
    if "(k, rs) \<in> set (sync_out s)" for k rs
  proof -
    from buf_inv_outD [OF binv that] have len: "length rs = 2"
      and p0: "Push 0 k (rs ! 0) \<in> set es" and p1: "Push 1 k (rs ! 1) \<in> set es" by auto
    have "set es = set (to_sync 0 L) \<union> set (to_sync 1 R)" using sh by (rule set_shuffles)
    with p0 p1 have "Message k (rs ! 0) \<in> set L" "Message k (rs ! 1) \<in> set R"
      by (auto simp: push_in_to_sync)
    moreover obtain a b where "rs = [a, b]" using len by (auto simp: numeral_2_eq_2 length_Suc_conv)
    ultimately show ?thesis by auto
  qed
  from run cnt out show ?thesis by blast
qed

lemma runner_left_not_top:
  "k \<in> set (watermarks_of (left_camera_ingest_stream (runner_run su ingest_init evs))) \<Longrightarrow> \<not> is_top k"
  by (auto simp: runner_run_left_watermarks ingest_init_def split: if_splits)


section \<open>Properties spanning the decay operator and precision/recall\<close>



text \<open>Empty frames send nothing: when neither the new frame nor the windowed frame holds a person, the operator extends the window but emits no message (the condition on line 47 of detection_decay_operator.py skips the pair).\<close>

theorem empty_frames_send_nothing:
  assumes "filter is_person obs = []" and "g - t \<le> lat"
  shows "decay_on_data ov lat (TS [g]) obs \<lparr>ground_bboxes = [(t, [])]\<rparr>
           = Inr (\<lparr>ground_bboxes = [(t, []), (g, [])]\<rparr>, [])"
  using assms by (simp add: decay_on_data_def decay_messages_def)


section \<open>Properties spanning the runner and the synchroniser\<close>

text \<open>C39 (stereo frames align exactly once): deliver the left and right ingest
  streams of any run of the runner's callbacks to a two-stream synchroniser, in any
  interleaving. If neither camera repeats a game time, the synchroniser raises no
  error, emits each timestamp that both cameras delivered exactly once and no
  other, and each emitted pair is a left frame and a right frame of that
  timestamp.\<close>

theorem stereo_frames_align_once:
  assumes "st = runner_run main_setups ingest_init evs"
    and "distinct (watermarks_of (left_camera_ingest_stream st))"
    and "distinct (watermarks_of (right_camera_ingest_stream st))"
    and "es \<in> shuffles (to_sync 0 (left_camera_ingest_stream st)) (to_sync 1 (right_camera_ingest_stream st))"
  shows "\<exists>s. sync_run (sync_init 2) es = Inr s
     \<and> (\<forall>k. count_list (map fst (sync_out s)) k
             = (if k \<in> set (watermarks_of (left_camera_ingest_stream st))
                   \<and> k \<in> set (watermarks_of (right_camera_ingest_stream st)) then 1 else 0))
     \<and> (\<forall>(k, rs) \<in> set (sync_out s). \<exists>l r. rs = [l, r]
          \<and> Message k l \<in> set (left_camera_ingest_stream st)
          \<and> Message k r \<in> set (right_camera_ingest_stream st))"
proof -
  have "well_paired (left_camera_ingest_stream st) \<and> well_paired (right_camera_ingest_stream st)"
    using assms(1) by (simp add: runner_run_well_paired ingest_init_def)
  moreover have "\<forall>k \<in> set (watermarks_of (left_camera_ingest_stream st)). \<not> is_top k"
    using assms(1) runner_left_not_top by blast
  ultimately show ?thesis using paired_streams_align assms(2-4) by blast
qed


section \<open>Witnesses\<close>



theorem empty_frames_send_nothing_witness:
  "decay_on_data (\<lambda>a b. if a = b then (1::rat) else 0) 100 (TS [30])
     [\<lparr>label = ''car'', bounding_box = (2::nat)\<rparr>]
     \<lparr>ground_bboxes = [(0, [])]\<rparr>
   = Inr (\<lparr>ground_bboxes = [(0, []), (30, [])]\<rparr>, [])"
  using empty_frames_send_nothing [where g = 30 and t = 0 and lat = 100
      and obs = "[\<lparr>label = ''car'', bounding_box = (2::nat)\<rparr>]"
      and ov = "\<lambda>a b. if a = b then (1::rat) else 0"]
  by (simp add: is_person_def)

theorem stereo_frames_align_once_witness:
  "\<exists>s. sync_run (sync_init 2)
         [Push 0 (TS [100]) (CameraFrame (1::nat) (RGBCameraSetup ''camera_left'')),
          Push 1 (TS [100]) (CameraFrame 2 (RGBCameraSetup ''camera_right'')),
          Ready 1 (TS [100]), Ready 0 (TS [100])] = Inr s
       \<and> count_list (map fst (sync_out s)) (TS [100]) = 1"
proof -
  have run: "runner_run main_setups ingest_init
     [(LeftCamera, \<lparr>image_timestamp = 1/10, image_data = (1::nat)\<rparr>),
      (RightCamera, \<lparr>image_timestamp = 1/10, image_data = 2\<rparr>)]
   = \<lparr>rgb_camera_ingest_stream = [], depth_camera_ingest_stream = [], seg_camera_ingest_stream = [],
      left_camera_ingest_stream = [Message (TS [100]) (CameraFrame 1 (RGBCameraSetup ''camera_left'')),
                                   WatermarkMessage (TS [100])],
      right_camera_ingest_stream = [Message (TS [100]) (CameraFrame 2 (RGBCameraSetup ''camera_right'')),
                                    WatermarkMessage (TS [100])],
      ttd_ingest_stream = []\<rparr>"
    by (simp add: runner_eval_simps main_setups_def create_left_right_camera_setups_def
        RGBCameraSetup_def)
  have sh: "[Push 0 (TS [100]) (CameraFrame (1::nat) (RGBCameraSetup ''camera_left'')),
    Push 1 (TS [100]) (CameraFrame 2 (RGBCameraSetup ''camera_right'')),
    Ready 1 (TS [100]), Ready 0 (TS [100])]
   \<in> shuffles (to_sync 0 [Message (TS [100]) (CameraFrame 1 (RGBCameraSetup ''camera_left'')),
                          WatermarkMessage (TS [100])])
              (to_sync 1 [Message (TS [100]) (CameraFrame 2 (RGBCameraSetup ''camera_right'')),
                          WatermarkMessage (TS [100])])"
    by (simp add: Cons_in_shuffles_iff)
  from stereo_frames_align_once [OF run [symmetric]] sh show ?thesis by force
qed

end
